theory Spec2Isabelle
  imports Main "HOL-Library.Sublist"
begin

section \<open>The asset-optimization helpers of xdl (AssetUtils.ts)\<close>

text \<open>
  The module finds the image assets of a project, decides whether any of them still has
  to be optimized, and keeps the record of optimized assets in
  \<^verbatim>\<open>.expo-shared/assets.json\<close>. Strings are byte strings; a JavaScript value that may be
  \<^verbatim>\<open>undefined\<close> is an \<open>option\<close>; an exception is the \<open>Inl\<close> branch of a sum.
\<close>

subsection \<open>Data\<close>

datatype error = IOError | FileSystemError | ConfigError

text \<open>\<^verbatim>\<open>AssetOptimizationState = { [hash: string]: boolean }\<close>\<close>

type_synonym AssetOptimizationState = "string \<rightharpoonup> bool"

text \<open>
  \<^verbatim>\<open>OptimizationOptions\<close>. The fields \<^verbatim>\<open>include\<close> and \<^verbatim>\<open>exclude\<close> carry a suffix because
  \<^verbatim>\<open>include\<close> is a keyword of the theory language. \<^verbatim>\<open>quality\<close> is a number that none of the
  functions below reads.
\<close>

record OptimizationOptions =
  quality :: int
  include_opt :: "string option"
  exclude_opt :: "string option"
  save :: "bool option"

record globOptions =
  cwd :: string
  ignore :: "string list"

text \<open>The object \<^verbatim>\<open>{ allFiles, selectedFiles }\<close> that \<^verbatim>\<open>getAssetFilesAsync\<close> returns.\<close>

record assetFiles =
  allFiles :: "string list"
  selectedFiles :: "string list"

text \<open>
  What the module reaches through its imports: the file system (\<^verbatim>\<open>fs-extra\<close>), the project
  configuration (\<^verbatim>\<open>@expo/config\<close>), glob expansion (\<^verbatim>\<open>glob\<close>), SHA-256 (\<^verbatim>\<open>crypto\<close>) and the
  JSON codec. None of these is code of the module, so each is a field of the world the
  functions run in. \<open>glob_sync w pattern options\<close> is \<^verbatim>\<open>glob.sync(pattern, options)\<close>;
  \<open>may_create w p\<close> says whether the operating system lets a directory or file be created
  at \<open>p\<close>.
\<close>

record world =
  files :: "string \<rightharpoonup> string"
  dirs :: "string set"
  may_create :: "string \<Rightarrow> bool"
  readConfigJson :: "string \<Rightarrow> error + string list option"
  glob_sync :: "string \<Rightarrow> globOptions \<Rightarrow> string list"
  sha256_hex :: "string \<Rightarrow> string"
  json_parse :: "string \<Rightarrow> AssetOptimizationState option"
  json_stringify :: "AssetOptimizationState \<Rightarrow> string"

subsection \<open>JavaScript string primitives\<close>

text \<open>
  \<^verbatim>\<open>String.prototype.toLowerCase\<close> on the ASCII letters. Bytes outside \<^verbatim>\<open>A-Z\<close> stay as they
  are; no character outside ASCII lower-cases to one of the letters the image pattern
  looks for.
\<close>

definition toLowerChar :: "char \<Rightarrow> char" where
  "toLowerChar c =
     (case map_of (zip ''ABCDEFGHIJKLMNOPQRSTUVWXYZ'' ''abcdefghijklmnopqrstuvwxyz'') c of
        None \<Rightarrow> c
      | Some l \<Rightarrow> l)"

definition toLowerCase :: "string \<Rightarrow> string" where
  "toLowerCase s = map toLowerChar s"

text \<open>
  \<^verbatim>\<open>s.replace(pat, rep)\<close> with a string pattern: only the first occurrence of \<open>pat\<close> is
  replaced. (The replacement is taken literally; the one the module uses has no \<^verbatim>\<open>$\<close>.)
\<close>

fun replace :: "string \<Rightarrow> string \<Rightarrow> string \<Rightarrow> string" where
  "replace [] pat rep = (if pat = [] then rep else [])"
| "replace (c # cs) pat rep =
     (if prefix pat (c # cs) then rep @ drop (length pat) (c # cs)
      else c # replace cs pat rep)"

text \<open>\<^verbatim>\<open>/\.(png|jpg|jpeg)$/.test(s)\<close>: without the \<^verbatim>\<open>m\<close> flag, \<^verbatim>\<open>$\<close> is the end of the string.\<close>

definition regex_test :: "string \<Rightarrow> bool" where
  "regex_test s = (suffix ''.png'' s \<or> suffix ''.jpg'' s \<or> suffix ''.jpeg'' s)"

text \<open>
  The value of \<^verbatim>\<open>options && options.field\<close> when it is truthy: the options object is there,
  the field is set, and it is not the empty string.
\<close>

definition truthy_field ::
  "(OptimizationOptions \<Rightarrow> string option) \<Rightarrow> OptimizationOptions option \<Rightarrow> string option" where
  "truthy_field field options =
     (case options of
        None \<Rightarrow> None
      | Some opt \<Rightarrow> (case field opt of None \<Rightarrow> None | Some s \<Rightarrow> if s = [] then None else Some s))"

subsection \<open>Node's \<^verbatim>\<open>path\<close> module (POSIX)\<close>

text \<open>\<^verbatim>\<open>s.split(sep)\<close> for a one-character separator, and \<^verbatim>\<open>segments.join(sep)\<close>.\<close>

fun split_on :: "char \<Rightarrow> string \<Rightarrow> string list" where
  "split_on sep [] = [[]]"
| "split_on sep (c # cs) =
     (if c = sep then [] # split_on sep cs
      else (case split_on sep cs of [] \<Rightarrow> [[c]] | s # ss \<Rightarrow> (c # s) # ss))"

fun join_with :: "string \<Rightarrow> string list \<Rightarrow> string" where
  "join_with sep [] = []"
| "join_with sep [s] = s"
| "join_with sep (s # t # ss) = s @ sep @ join_with sep (t # ss)"

text \<open>
  \<^verbatim>\<open>normalizeString\<close>, on the segments between slashes: empty segments and \<^verbatim>\<open>.\<close> are dropped,
  \<^verbatim>\<open>..\<close> removes the segment before it, and is kept only where nothing is left to remove
  and the path is relative (\<open>allowAboveRoot\<close>). \<open>res\<close> is the result so far.
\<close>

fun normalizeString :: "bool \<Rightarrow> string list \<Rightarrow> string list \<Rightarrow> string list" where
  "normalizeString allowAboveRoot res [] = res"
| "normalizeString allowAboveRoot res (s # ss) =
     (if s = [] \<or> s = ''.'' then normalizeString allowAboveRoot res ss
      else if s = ''..'' then
        (if res \<noteq> [] \<and> last res \<noteq> ''..'' then normalizeString allowAboveRoot (butlast res) ss
         else if allowAboveRoot then normalizeString allowAboveRoot (res @ [''..'']) ss
         else normalizeString allowAboveRoot res ss)
      else normalizeString allowAboveRoot (res @ [s]) ss)"

definition path_normalize :: "string \<Rightarrow> string" where
  "path_normalize path =
     (if path = [] then ''.''
      else
        let isAbsolute = (hd path = CHR ''/'');
            trailingSeparator = (last path = CHR ''/'');
            p = join_with ''/'' (normalizeString (\<not> isAbsolute) [] (split_on CHR ''/'' path))
        in if p = [] then (if isAbsolute then ''/'' else if trailingSeparator then ''./'' else ''.'')
           else (if isAbsolute then ''/'' else []) @ p @ (if trailingSeparator then ''/'' else []))"

definition path_join :: "string list \<Rightarrow> string" where
  "path_join args =
     (let joined = filter (\<lambda>arg. arg \<noteq> []) args
      in if joined = [] then ''.'' else path_normalize (join_with ''/'' joined))"

text \<open>
  \<^verbatim>\<open>path.parse\<close>. Trailing slashes are skipped; \<open>base\<close> is the last segment of what is left
  and \<open>dir\<close> everything before the slash in front of it. The extension starts at the last
  dot of \<open>base\<close>, unless that dot is the first character of \<open>base\<close> or \<open>base\<close> is \<^verbatim>\<open>..\<close>; the
  test for \<^verbatim>\<open>..\<close> compares against \<^verbatim>\<open>startPart\<close>, which stays 0 when \<open>base\<close> follows the root
  slash directly (\<open>afterRoot\<close>), so there \<^verbatim>\<open>..\<close> does get the extension \<^verbatim>\<open>.\<close>.
\<close>

record parsed_path =
  root :: string
  dir :: string
  base :: string
  ext :: string
  name :: string

definition strip_trailing :: "string \<Rightarrow> string" where
  "strip_trailing s = rev (dropWhile (\<lambda>c. c = CHR ''/'') (rev s))"

definition after_last :: "char \<Rightarrow> string \<Rightarrow> string" where
  "after_last sep s = rev (takeWhile (\<lambda>c. c \<noteq> sep) (rev s))"

definition upto_last :: "char \<Rightarrow> string \<Rightarrow> string" where
  "upto_last sep s = rev (dropWhile (\<lambda>c. c \<noteq> sep) (rev s))"

definition split_ext :: "bool \<Rightarrow> string \<Rightarrow> string \<times> string" where
  "split_ext afterRoot b =
     (if CHR ''.'' \<notin> set b then (b, [])
      else
        let stem = butlast (upto_last CHR ''.'' b);
            tail = after_last CHR ''.'' b
        in if stem = [] \<or> (stem = ''.'' \<and> tail = [] \<and> \<not> afterRoot) then (b, [])
           else (stem, CHR ''.'' # tail))"

definition path_parse :: "string \<Rightarrow> parsed_path" where
  "path_parse path =
     (if path = [] then \<lparr>root = [], dir = [], base = [], ext = [], name = []\<rparr>
      else
        let isAbsolute = (hd path = CHR ''/'');
            rt = (if isAbsolute then ''/'' else []);
            trimmed = strip_trailing (if isAbsolute then tl path else path);
            b = after_last CHR ''/'' trimmed;
            front = upto_last CHR ''/'' trimmed;
            (n, e) = split_ext (isAbsolute \<and> front = []) b
        in \<lparr>root = rt,
            dir = (if front \<noteq> [] then rt @ butlast front else rt),
            base = b, ext = e, name = n\<rparr>)"

subsection \<open>The file system and the JSON document\<close>

definition existsSync :: "world \<Rightarrow> string \<Rightarrow> bool" where
  "existsSync w p = (p \<in> dom (files w) \<or> p \<in> dirs w)"

definition readFileSync :: "world \<Rightarrow> string \<Rightarrow> error + string" where
  "readFileSync w p = (case files w p of None \<Rightarrow> Inl IOError | Some contents \<Rightarrow> Inr contents)"

definition mkdirSync :: "world \<Rightarrow> string \<Rightarrow> error + world" where
  "mkdirSync w p =
     (if may_create w p then Inr (w\<lparr>dirs := insert p (dirs w)\<rparr>) else Inl FileSystemError)"

text \<open>
  Modelled from the spec: \<^verbatim>\<open>JsonFile\<close> (package \<^verbatim>\<open>@expo/json-file\<close> of this repository, not
  among the source files). The spec treats it as a document store: \<^verbatim>\<open>writeAsync\<close> overwrites
  the document with the given record; \<^verbatim>\<open>readAsync\<close> returns the record of the document
  and fails with a \<^verbatim>\<open>FileSystemError\<close> when the document cannot be read or cannot be parsed
  as valid structured data. The handle is the path of the document.
\<close>

definition JsonFile_writeAsync :: "world \<Rightarrow> string \<Rightarrow> AssetOptimizationState \<Rightarrow> error + world" where
  "JsonFile_writeAsync w file obj =
     (if may_create w file \<or> file \<in> dom (files w)
      then Inr (w\<lparr>files := (files w)(file \<mapsto> json_stringify w obj)\<rparr>)
      else Inl FileSystemError)"

definition JsonFile_readAsync :: "world \<Rightarrow> string \<Rightarrow> error + AssetOptimizationState" where
  "JsonFile_readAsync w file =
     (case files w file of
        None \<Rightarrow> Inl FileSystemError
      | Some contents \<Rightarrow>
          (case json_parse w contents of None \<Rightarrow> Inl FileSystemError | Some obj \<Rightarrow> Inr obj))"

subsection \<open>AssetUtils.ts\<close>

definition calculateHash :: "world \<Rightarrow> string \<Rightarrow> error + string" where
  "calculateHash w filePath =
     (case readFileSync w filePath of
        Inl e \<Rightarrow> Inl e
      | Inr contents \<Rightarrow> Inr (sha256_hex w contents))"

text \<open>
  \<^verbatim>\<open>filterImages\<close>. \<open>inDirectory projectDir file\<close> is the body of the function it maps over
  the files, the template string \<^verbatim>\<open>`${projectDir}/${file}`\<close> with its first \<^verbatim>\<open>//\<close> replaced.
\<close>

definition inDirectory :: "string \<Rightarrow> string \<Rightarrow> string" where
  "inDirectory projectDir file = replace (projectDir @ ''/'' @ file) ''//'' ''/''"

definition filterImages :: "string list \<Rightarrow> string \<Rightarrow> string list" where
  "filterImages fs projectDir =
     (let withDirectory = map (inDirectory projectDir) fs;
          allImages = filter (\<lambda>file. regex_test (toLowerCase file)) withDirectory
      in allImages)"

text \<open>The local values of \<^verbatim>\<open>getAssetFilesAsync\<close>, one definition each, under their names.\<close>

definition globOptions_of :: "string \<Rightarrow> globOptions" where
  "globOptions_of projectDir =
     \<lparr>cwd = projectDir, ignore = [''**/node_modules/**'', ''**/ios/**'', ''**/android/**'']\<rparr>"

definition patterns_of :: "string list option \<Rightarrow> string list" where
  "patterns_of assetBundlePatterns =
     (case assetBundlePatterns of None \<Rightarrow> [''**/*''] | Some ps \<Rightarrow> ps)"

definition allFiles_of :: "world \<Rightarrow> globOptions \<Rightarrow> string list \<Rightarrow> string list" where
  "allFiles_of w go patterns = concat (map (\<lambda>pattern. glob_sync w pattern go) patterns)"

definition included :: "world \<Rightarrow> globOptions \<Rightarrow> OptimizationOptions option \<Rightarrow> string list \<Rightarrow> string list" where
  "included w go options all =
     (case truthy_field include_opt options of
        Some pattern \<Rightarrow> glob_sync w pattern go
      | None \<Rightarrow> all)"

definition toExclude :: "world \<Rightarrow> globOptions \<Rightarrow> OptimizationOptions option \<Rightarrow> string set" where
  "toExclude w go options =
     (case truthy_field exclude_opt options of
        Some pattern \<Rightarrow> set (glob_sync w pattern go)
      | None \<Rightarrow> {})"

definition excluded :: "world \<Rightarrow> globOptions \<Rightarrow> OptimizationOptions option \<Rightarrow> string list \<Rightarrow> string list" where
  "excluded w go options all =
     filter (\<lambda>file. file \<notin> toExclude w go options) (included w go options all)"

definition filtered :: "world \<Rightarrow> globOptions \<Rightarrow> OptimizationOptions option \<Rightarrow> string list \<Rightarrow> string list" where
  "filtered w go options all =
     (case truthy_field exclude_opt options of
        Some pattern \<Rightarrow> excluded w go options all
      | None \<Rightarrow> included w go options all)"

definition getAssetFilesAsync ::
  "world \<Rightarrow> string \<Rightarrow> OptimizationOptions option \<Rightarrow> error + assetFiles" where
  "getAssetFilesAsync w projectDir options =
     (case readConfigJson w projectDir of
        Inl e \<Rightarrow> Inl e
      | Inr assetBundlePatterns \<Rightarrow>
          (let go = globOptions_of projectDir;
               all = allFiles_of w go (patterns_of assetBundlePatterns)
           in Inr \<lparr>allFiles = filterImages all projectDir,
                   selectedFiles = filterImages (filtered w go options all) projectDir\<rparr>))"

text \<open>
  \<^verbatim>\<open>readAssetJsonAsync\<close> returns the world it leaves behind and either an error or the pair
  of the document's handle and its record. The informational notice it logs when it
  creates the document is not part of the model.
\<close>

definition readAssetJsonAsync ::
  "world \<Rightarrow> string \<Rightarrow> world \<times> (error + string \<times> AssetOptimizationState)" where
  "readAssetJsonAsync w projectDir =
     (let dirPath = path_join [projectDir, ''.expo-shared''];
          assetJson = path_join [dirPath, ''assets.json'']
      in (case (if \<not> existsSync w dirPath then mkdirSync w dirPath else Inr w) of
            Inl e \<Rightarrow> (w, Inl e)
          | Inr w1 \<Rightarrow>
              (case (if \<not> existsSync w1 assetJson
                     then JsonFile_writeAsync w1 assetJson Map.empty
                     else Inr w1) of
                 Inl e \<Rightarrow> (w1, Inl e)
               | Inr w2 \<Rightarrow>
                   (case JsonFile_readAsync w2 assetJson of
                      Inl e \<Rightarrow> (w2, Inl e)
                    | Inr assetInfo \<Rightarrow> (w2, Inr (assetJson, assetInfo))))))"

text \<open>
  The loop of \<^verbatim>\<open>hasUnoptimizedAssetsAsync\<close>. \<^verbatim>\<open>!assetInfo[hash]\<close> holds when the record has no
  entry for the hash, and when the entry is \<^verbatim>\<open>false\<close>.
\<close>

definition falsy :: "bool option \<Rightarrow> bool" where
  "falsy v = (case v of None \<Rightarrow> True | Some b \<Rightarrow> \<not> b)"

fun unoptimized_loop :: "world \<Rightarrow> AssetOptimizationState \<Rightarrow> string list \<Rightarrow> error + bool" where
  "unoptimized_loop w assetInfo [] = Inr False"
| "unoptimized_loop w assetInfo (file # rest) =
     (case calculateHash w file of
        Inl e \<Rightarrow> Inl e
      | Inr hash \<Rightarrow> if falsy (assetInfo hash) then Inr True else unoptimized_loop w assetInfo rest)"

definition hasUnoptimizedAssetsAsync ::
  "world \<Rightarrow> string \<Rightarrow> OptimizationOptions option \<Rightarrow> world \<times> (error + bool)" where
  "hasUnoptimizedAssetsAsync w projectDir options =
     (if \<not> existsSync w (path_join [projectDir, ''.expo-shared/assets.json'']) then (w, Inr True)
      else
        (case getAssetFilesAsync w projectDir options of
           Inl e \<Rightarrow> (w, Inl e)
         | Inr r \<Rightarrow>
             (case readAssetJsonAsync w projectDir of
                (w', Inl e) \<Rightarrow> (w', Inl e)
              | (w', Inr (assetJson, assetInfo)) \<Rightarrow>
                  (w', unoptimized_loop w' assetInfo (selectedFiles r)))))"

definition createNewFilename :: "string \<Rightarrow> string" where
  "createNewFilename imagePath =
     (let p = path_parse imagePath
      in path_join [dir p, name p @ ''.orig'' @ ext p])"

subsection \<open>The variant of the selection that always filters\<close>

text \<open>
  The spec's design notes compare \<^verbatim>\<open>getAssetFilesAsync\<close> with a variant that returns the
  filtered list \<^verbatim>\<open>excluded\<close> whether or not \<^verbatim>\<open>options.exclude\<close> is set. This is that variant,
  written after the spec's words; everything else is as in \<open>getAssetFilesAsync\<close>.
\<close>

definition getAssetFilesAsync_always_filtering ::
  "world \<Rightarrow> string \<Rightarrow> OptimizationOptions option \<Rightarrow> error + assetFiles" where
  "getAssetFilesAsync_always_filtering w projectDir options =
     (case readConfigJson w projectDir of
        Inl e \<Rightarrow> Inl e
      | Inr assetBundlePatterns \<Rightarrow>
          (let go = globOptions_of projectDir;
               all = allFiles_of w go (patterns_of assetBundlePatterns)
           in Inr \<lparr>allFiles = filterImages all projectDir,
                   selectedFiles = filterImages (excluded w go options all) projectDir\<rparr>))"

text \<open>What a call of \<^verbatim>\<open>getAssetFilesAsync\<close> returns as \<^verbatim>\<open>allFiles\<close>, or the error it throws.\<close>

definition returned_allFiles :: "error + assetFiles \<Rightarrow> error + string list" where
  "returned_allFiles result = (case result of Inl e \<Rightarrow> Inl e | Inr r \<Rightarrow> Inr (allFiles r))"

subsection \<open>An example project\<close>

text \<open>
  A project directory holding \<^verbatim>\<open>a.png\<close>, \<^verbatim>\<open>b.png\<close>, \<^verbatim>\<open>c.jpg\<close> and \<^verbatim>\<open>notes.txt\<close>, with no bundle
  patterns configured. \<open>example_glob\<close> lists what \<^verbatim>\<open>glob.sync\<close> returns there for the patterns
  the examples use; the stand-in digest of a file's contents is the contents after a tag.
\<close>

definition example_glob :: "string \<Rightarrow> globOptions \<Rightarrow> string list" where
  "example_glob pattern go =
     (if pattern = ''**/*'' then [''a.png'', ''b.png'', ''c.jpg'', ''notes.txt'']
      else if pattern = ''*.png'' then [''a.png'', ''b.png'']
      else if pattern = ''b.png'' then [''b.png'']
      else if pattern = ''notes.*'' then [''notes.txt'']
      else [])"

definition example_json_parse :: "string \<Rightarrow> AssetOptimizationState option" where
  "example_json_parse contents =
     (if contents = ''{}'' then Some Map.empty
      else if contents = ''{sha256-A: true, sha256-B: true}''
        then Some [''sha256-A'' \<mapsto> True, ''sha256-B'' \<mapsto> True]
      else if contents = ''{sha256-A: true, sha256-B: false}''
        then Some [''sha256-A'' \<mapsto> True, ''sha256-B'' \<mapsto> False]
      else None)"

definition example_project :: "string \<Rightarrow> world" where
  "example_project projectDir =
     \<lparr>files = [projectDir @ ''/a.png'' \<mapsto> ''A'', projectDir @ ''/b.png'' \<mapsto> ''B'',
               projectDir @ ''/c.jpg'' \<mapsto> ''C'', projectDir @ ''/notes.txt'' \<mapsto> ''N''],
      dirs = {projectDir},
      may_create = (\<lambda>p. True),
      readConfigJson = (\<lambda>d. Inr None),
      glob_sync = example_glob,
      sha256_hex = (\<lambda>contents. ''sha256-'' @ contents),
      json_parse = example_json_parse,
      json_stringify = (\<lambda>obj. ''{}'')\<rparr>"

text \<open>The same project with a document \<^verbatim>\<open>.expo-shared/assets.json\<close> of the given contents.\<close>

definition example_project_with_manifest :: "string \<Rightarrow> string \<Rightarrow> world" where
  "example_project_with_manifest projectDir contents =
     (example_project projectDir)
       \<lparr>files := (files (example_project projectDir))
                   (projectDir @ ''/.expo-shared/assets.json'' \<mapsto> contents),
        dirs := {projectDir, projectDir @ ''/.expo-shared''}\<rparr>"

text \<open>
  The project with a document of the given contents where \<^verbatim>\<open>c.jpg\<close> cannot be read, as when
  the name is that of a directory.
\<close>

definition example_project_unreadable :: "string \<Rightarrow> string \<Rightarrow> world" where
  "example_project_unreadable projectDir contents =
     (example_project_with_manifest projectDir contents)
       \<lparr>files := (files (example_project_with_manifest projectDir contents))
                   (projectDir @ ''/c.jpg'' := None)\<rparr>"

text \<open>
  The project with a document of the given contents where the file of the given name
  cannot be read.
\<close>

definition example_project_missing :: "string \<Rightarrow> string \<Rightarrow> string \<Rightarrow> world" where
  "example_project_missing projectDir contents missing =
     (example_project_with_manifest projectDir contents)
       \<lparr>files := (files (example_project_with_manifest projectDir contents))
                   (projectDir @ ''/'' @ missing := None)\<rparr>"

section \<open>Properties\<close>

subsection \<open>String lemmas\<close>

lemma toLowerChar_slash: "toLowerChar CHR ''/'' = CHR ''/''"
  by (simp add: toLowerChar_def)

lemma replace_hit: "prefix pat (c # cs) \<Longrightarrow> replace (c # cs) pat rep = rep @ drop (length pat) (c # cs)"
  by simp

lemma replace_miss: "\<not> prefix pat (c # cs) \<Longrightarrow> replace (c # cs) pat rep = c # replace cs pat rep"
  by simp

lemma replace_shape:
  "replace s pat rep = s \<or> (\<exists>pre post. s = pre @ pat @ post \<and> replace s pat rep = pre @ rep @ post)"
proof (induction s)
  case Nil
  then show ?case by auto
next
  case (Cons c cs)
  show ?case
  proof (cases "prefix pat (c # cs)")
    case True
    then obtain post where eq: "c # cs = pat @ post" by (auto simp: prefix_def)
    have "replace (c # cs) pat rep = rep @ drop (length pat) (c # cs)"
      using True by (rule replace_hit)
    also have "\<dots> = rep @ post" by (simp only: eq) simp
    finally have "c # cs = [] @ pat @ post \<and> replace (c # cs) pat rep = [] @ rep @ post"
      using eq by simp
    then show ?thesis by blast
  next
    case False
    from Cons.IH show ?thesis
    proof
      assume "replace cs pat rep = cs"
      with False show ?thesis by (simp add: replace_miss del: replace.simps)
    next
      assume "\<exists>pre post. cs = pre @ pat @ post \<and> replace cs pat rep = pre @ rep @ post"
      then obtain pre post where "cs = pre @ pat @ post" "replace cs pat rep = pre @ rep @ post" by blast
      with False have "c # cs = (c # pre) @ pat @ post \<and> replace (c # cs) pat rep = (c # pre) @ rep @ post"
        by (simp add: replace_miss del: replace.simps)
      then show ?thesis by blast
    qed
  qed
qed

lemma suffix_past_char:
  "suffix e (xs @ c # ys) \<Longrightarrow> c \<notin> set e \<Longrightarrow> suffix e ys"
proof -
  assume "suffix e (xs @ c # ys)" and c: "c \<notin> set e"
  then obtain zs where "xs @ c # ys = zs @ e" by (auto simp: suffix_def)
  then obtain us where "(xs = zs @ us \<and> us @ c # ys = e) \<or> (xs @ us = zs \<and> c # ys = us @ e)"
    unfolding append_eq_append_conv2 by blast
  then show "suffix e ys"
  proof
    assume "xs = zs @ us \<and> us @ c # ys = e"
    with c show ?thesis by auto
  next
    assume a: "xs @ us = zs \<and> c # ys = us @ e"
    show ?thesis
    proof (cases us)
      case Nil
      with a c show ?thesis by auto
    next
      case (Cons u us')
      with a have "ys = us' @ e" by simp
      then show ?thesis unfolding suffix_def by blast
    qed
  qed
qed

lemma suffix_past_char_iff:
  assumes "c \<notin> set e"
  shows "suffix e (xs @ c # ys) \<longleftrightarrow> suffix e ys"
proof
  assume "suffix e (xs @ c # ys)"
  then show "suffix e ys" using assms by (rule suffix_past_char)
next
  assume "suffix e ys"
  then obtain zs where "ys = zs @ e" by (auto simp: suffix_def)
  then have "xs @ c # ys = (xs @ c # zs) @ e" by simp
  then show "suffix e (xs @ c # ys)" unfolding suffix_def by blast
qed

lemma suffix_replace_iff:
  assumes "CHR ''/'' \<notin> set e"
  shows "suffix e (replace s ''//'' ''/'') \<longleftrightarrow> suffix e s"
proof -
  from replace_shape [of s "''//''" "''/''"] show ?thesis
  proof
    assume "replace s ''//'' ''/'' = s" then show ?thesis by simp
  next
    assume "\<exists>pre post. s = pre @ ''//'' @ post \<and> replace s ''//'' ''/'' = pre @ ''/'' @ post"
    then obtain pre post where s: "s = pre @ ''//'' @ post" and r: "replace s ''//'' ''/'' = pre @ ''/'' @ post"
      by blast
    have "suffix e (replace s ''//'' ''/'') \<longleftrightarrow> suffix e (pre @ CHR ''/'' # post)"
      using r by simp
    also have "\<dots> \<longleftrightarrow> suffix e post"
      using assms by (rule suffix_past_char_iff)
    also have "\<dots> \<longleftrightarrow> suffix e ((pre @ ''/'') @ CHR ''/'' # post)"
      using assms by (rule suffix_past_char_iff [symmetric])
    also have "(pre @ ''/'') @ CHR ''/'' # post = s"
      using s by simp
    finally show ?thesis .
  qed
qed

lemma toLowerChar_eq_slash: "toLowerChar c = CHR ''/'' \<longleftrightarrow> c = CHR ''/''"
  unfolding toLowerChar_def by (auto split: option.splits if_splits)

lemma slash_eq_toLowerChar: "CHR ''/'' = toLowerChar c \<longleftrightarrow> c = CHR ''/''"
  using toLowerChar_eq_slash [of c] by auto

lemma toLowerCase_replace:
  "toLowerCase (replace s ''//'' ''/'') = replace (toLowerCase s) ''//'' ''/''"
proof (induction s)
  case Nil
  show ?case by (simp add: toLowerCase_def)
next
  case (Cons c cs)
  have "prefix ''//'' (toLowerCase (c # cs)) \<longleftrightarrow> prefix ''//'' (c # cs)"
    by (cases cs) (auto simp: toLowerCase_def slash_eq_toLowerChar toLowerChar_slash)
  with Cons show ?case
    by (auto simp: toLowerCase_def toLowerChar_slash drop_map)
qed

lemma suffix_inDirectory_iff:
  assumes "CHR ''/'' \<notin> set e"
  shows "suffix e (toLowerCase (inDirectory d f)) \<longleftrightarrow> suffix e (toLowerCase f)"
proof -
  have "suffix e (toLowerCase (inDirectory d f)) \<longleftrightarrow> suffix e (toLowerCase (d @ ''/'' @ f))"
    unfolding inDirectory_def toLowerCase_replace using assms by (rule suffix_replace_iff)
  also have "toLowerCase (d @ ''/'' @ f) = toLowerCase d @ CHR ''/'' # toLowerCase f"
    by (simp add: toLowerCase_def toLowerChar_slash)
  also have "suffix e (toLowerCase d @ CHR ''/'' # toLowerCase f) \<longleftrightarrow> suffix e (toLowerCase f)"
    using assms by (rule suffix_past_char_iff)
  finally show ?thesis .
qed

lemma regex_test_inDirectory:
  "regex_test (toLowerCase (inDirectory d f)) \<longleftrightarrow> regex_test (toLowerCase f)"
  unfolding regex_test_def by (simp add: suffix_inDirectory_iff)

lemma filterImages_eq:
  "filterImages fs d = map (inDirectory d) (filter (\<lambda>f. regex_test (toLowerCase f)) fs)"
  unfolding filterImages_def Let_def
  by (induction fs) (simp_all add: regex_test_inDirectory)

subsection \<open>Selecting the asset files\<close>

lemma excluded_unset:
  "truthy_field exclude_opt options = None \<Longrightarrow> excluded w go options all = included w go options all"
  by (simp add: excluded_def toExclude_def)

lemma filtered_eq_excluded: "filtered w go options all = excluded w go options all"
  by (cases "truthy_field exclude_opt options") (simp_all add: filtered_def excluded_unset)

lemma getAssetFilesAsync_Inl:
  "readConfigJson w d = Inl e \<Longrightarrow> getAssetFilesAsync w d options = Inl e"
  by (simp add: getAssetFilesAsync_def)

lemma getAssetFilesAsync_Inr:
  "readConfigJson w d = Inr ps \<Longrightarrow>
   getAssetFilesAsync w d options =
     Inr \<lparr>allFiles = filterImages (allFiles_of w (globOptions_of d) (patterns_of ps)) d,
          selectedFiles =
            filterImages
              (filtered w (globOptions_of d) options (allFiles_of w (globOptions_of d) (patterns_of ps))) d\<rparr>"
  by (simp add: getAssetFilesAsync_def Let_def)

text \<open>
  Claim C8. The exclusion is the same whether the filter is applied always or only when
  \<^verbatim>\<open>options.exclude\<close> is set: the variant that always returns the filtered list returns, on
  every input, what \<^verbatim>\<open>getAssetFilesAsync\<close> returns; and when \<^verbatim>\<open>options.exclude\<close> is unset (no
  options, no such field, or the empty string) the set \<^verbatim>\<open>toExclude\<close> is empty and filtering
  the included list against it gives the included list back.
\<close>

theorem exclusion_filter_unconditional:
  "getAssetFilesAsync_always_filtering w projectDir options = getAssetFilesAsync w projectDir options
   \<and> (truthy_field exclude_opt options = None \<longrightarrow>
        toExclude w go options = {} \<and>
        filter (\<lambda>file. file \<notin> toExclude w go options) (included w go options all)
          = included w go options all)"
  by (cases "readConfigJson w projectDir")
     (simp_all add: getAssetFilesAsync_always_filtering_def getAssetFilesAsync_Inl
        getAssetFilesAsync_Inr Let_def filtered_eq_excluded toExclude_def)

theorem exclusion_filter_unconditional_witness:
  "truthy_field exclude_opt (Some \<lparr>quality = 80, include_opt = Some ''*.png'', exclude_opt = None, save = None\<rparr>) = None
   \<and> getAssetFilesAsync_always_filtering (example_project ''/proj'') ''/proj''
        (Some \<lparr>quality = 80, include_opt = Some ''*.png'', exclude_opt = None, save = None\<rparr>)
      = Inr \<lparr>allFiles = [''/proj/a.png'', ''/proj/b.png'', ''/proj/c.jpg''],
             selectedFiles = [''/proj/a.png'', ''/proj/b.png'']\<rparr>
   \<and> getAssetFilesAsync (example_project ''/proj'') ''/proj''
        (Some \<lparr>quality = 80, include_opt = Some ''*.png'', exclude_opt = None, save = None\<rparr>)
      = Inr \<lparr>allFiles = [''/proj/a.png'', ''/proj/b.png'', ''/proj/c.jpg''],
             selectedFiles = [''/proj/a.png'', ''/proj/b.png'']\<rparr>
   \<and> toExclude (example_project ''/proj'') (globOptions_of ''/proj'')
        (Some \<lparr>quality = 80, include_opt = Some ''*.png'', exclude_opt = None, save = None\<rparr>) = {}"
proof -
  let ?o = "Some \<lparr>quality = 80, include_opt = Some ''*.png'', exclude_opt = None, save = None\<rparr>"
  have h: "truthy_field exclude_opt ?o = None"
    by (simp add: truthy_field_def)
  have g: "getAssetFilesAsync (example_project ''/proj'') ''/proj'' ?o
      = Inr \<lparr>allFiles = [''/proj/a.png'', ''/proj/b.png'', ''/proj/c.jpg''],
             selectedFiles = [''/proj/a.png'', ''/proj/b.png'']\<rparr>"
    by code_simp
  from exclusion_filter_unconditional [of "example_project ''/proj''" "''/proj''" ?o "globOptions_of ''/proj''" "[]"]
  show ?thesis using h g by simp
qed

text \<open>
  Claim C4. The \<^verbatim>\<open>allFiles\<close> that \<^verbatim>\<open>getAssetFilesAsync\<close> returns does not depend on the
  options: for one project state and any two option values (so also two that differ only
  in \<^verbatim>\<open>include\<close> and \<^verbatim>\<open>exclude\<close>) the two calls return the same \<^verbatim>\<open>allFiles\<close>, or fail with the
  same error of the configuration reader; and that list is the image-filtered expansion of
  all bundle patterns.
\<close>

theorem allFiles_independent_of_options:
  "returned_allFiles (getAssetFilesAsync w projectDir options1)
     = returned_allFiles (getAssetFilesAsync w projectDir options2)
   \<and> returned_allFiles (getAssetFilesAsync w projectDir options1)
     = (case readConfigJson w projectDir of
          Inl e \<Rightarrow> Inl e
        | Inr assetBundlePatterns \<Rightarrow>
            Inr (filterImages
                  (concat (map (\<lambda>pattern. glob_sync w pattern (globOptions_of projectDir))
                     (patterns_of assetBundlePatterns)))
                  projectDir))"
  by (cases "readConfigJson w projectDir")
     (simp_all add: returned_allFiles_def getAssetFilesAsync_Inl getAssetFilesAsync_Inr
        allFiles_of_def)

theorem allFiles_independent_of_options_witness:
  "returned_allFiles (getAssetFilesAsync (example_project ''/proj'') ''/proj''
      (Some \<lparr>quality = 80, include_opt = Some ''*.png'', exclude_opt = Some ''b.png'', save = None\<rparr>))
     = Inr [''/proj/a.png'', ''/proj/b.png'', ''/proj/c.jpg'']
   \<and> returned_allFiles (getAssetFilesAsync (example_project ''/proj'') ''/proj''
      (Some \<lparr>quality = 80, include_opt = None, exclude_opt = None, save = None\<rparr>))
     = Inr [''/proj/a.png'', ''/proj/b.png'', ''/proj/c.jpg'']"
proof -
  let ?o1 = "Some \<lparr>quality = 80, include_opt = Some ''*.png'', exclude_opt = Some ''b.png'', save = None\<rparr>"
  let ?o2 = "Some \<lparr>quality = 80, include_opt = None, exclude_opt = None, save = None\<rparr>"
  have g: "returned_allFiles (getAssetFilesAsync (example_project ''/proj'') ''/proj'' ?o1)
      = Inr [''/proj/a.png'', ''/proj/b.png'', ''/proj/c.jpg'']"
    by code_simp
  from allFiles_independent_of_options [of "example_project ''/proj''" "''/proj''" ?o1 ?o2]
  show ?thesis using g by simp
qed

lemma getAssetFilesAsync_cases:
  assumes "getAssetFilesAsync w d options = Inr r"
  obtains ps where "readConfigJson w d = Inr ps"
    and "allFiles r = filterImages (allFiles_of w (globOptions_of d) (patterns_of ps)) d"
    and "selectedFiles r =
           filterImages
             (filtered w (globOptions_of d) options (allFiles_of w (globOptions_of d) (patterns_of ps))) d"
proof (cases "readConfigJson w d")
  case (Inl e)
  with assms show ?thesis by (simp add: getAssetFilesAsync_Inl)
next
  case (Inr ps)
  with assms that [OF Inr] show ?thesis by (auto simp: getAssetFilesAsync_Inr)
qed

lemma included_supplied:
  "options = Some opt \<Longrightarrow> include_opt opt = Some pattern \<Longrightarrow> pattern \<noteq> [] \<Longrightarrow>
   included w go options all = glob_sync w pattern go"
  by (simp add: included_def truthy_field_def)

text \<open>
  An empty string in \<^verbatim>\<open>options.include\<close> counts as no pattern: the test
  \<^verbatim>\<open>options && options.include\<close> is false for it, and the selection falls back to \<^verbatim>\<open>allFiles\<close>.
\<close>

lemma included_not_supplied:
  "options = None \<or> (\<exists>opt. options = Some opt \<and> (include_opt opt = None \<or> include_opt opt = Some []))
   \<Longrightarrow> included w go options all = all"
  by (auto simp: included_def truthy_field_def)

lemma filterImages_Nil: "filterImages [] d = []"
  by (simp add: filterImages_def)

lemma filterImages_regex: "p \<in> set (filterImages fs d) \<Longrightarrow> regex_test (toLowerCase p)"
  by (simp add: filterImages_def)

text \<open>
  Claim C3. When the options supply an include pattern (the options object is there and
  its \<^verbatim>\<open>include\<close> is a non-empty string, which is what the test \<^verbatim>\<open>options && options.include\<close>
  accepts), the list \<^verbatim>\<open>included\<close>, selected before exclusion and image filtering, is the
  expansion of that pattern alone, whatever \<^verbatim>\<open>allFiles\<close> is; and what \<^verbatim>\<open>getAssetFilesAsync\<close>
  returns as \<^verbatim>\<open>selectedFiles\<close> is that expansion, less the files of the exclude pattern when
  one is set, image-filtered. In particular, when the pattern matches no file,
  \<^verbatim>\<open>selectedFiles\<close> is empty, while \<^verbatim>\<open>allFiles\<close> is still the image-filtered expansion of the
  bundle patterns.
\<close>

theorem include_pattern_is_authoritative:
  assumes "options = Some opt" and "include_opt opt = Some pattern" and "pattern \<noteq> []"
  shows "included w go options all = glob_sync w pattern go
    \<and> (\<forall>ps. readConfigJson w projectDir = Inr ps \<longrightarrow>
          getAssetFilesAsync w projectDir options =
            Inr \<lparr>allFiles =
                   filterImages (allFiles_of w (globOptions_of projectDir) (patterns_of ps)) projectDir,
                 selectedFiles =
                   filterImages
                     (case truthy_field exclude_opt options of
                        None \<Rightarrow> glob_sync w pattern (globOptions_of projectDir)
                      | Some ex \<Rightarrow>
                          filter (\<lambda>f. f \<notin> set (glob_sync w ex (globOptions_of projectDir)))
                            (glob_sync w pattern (globOptions_of projectDir)))
                     projectDir\<rparr>)
    \<and> (\<forall>ps. readConfigJson w projectDir = Inr ps
              \<and> glob_sync w pattern (globOptions_of projectDir) = [] \<longrightarrow>
          getAssetFilesAsync w projectDir options =
            Inr \<lparr>allFiles =
                   filterImages (allFiles_of w (globOptions_of projectDir) (patterns_of ps)) projectDir,
                 selectedFiles = []\<rparr>)"
proof -
  have inc: "included w go options all = glob_sync w pattern go" for go all
    using assms by (rule included_supplied)
  have sel: "getAssetFilesAsync w projectDir options =
            Inr \<lparr>allFiles =
                   filterImages (allFiles_of w (globOptions_of projectDir) (patterns_of ps)) projectDir,
                 selectedFiles =
                   filterImages
                     (case truthy_field exclude_opt options of
                        None \<Rightarrow> glob_sync w pattern (globOptions_of projectDir)
                      | Some ex \<Rightarrow>
                          filter (\<lambda>f. f \<notin> set (glob_sync w ex (globOptions_of projectDir)))
                            (glob_sync w pattern (globOptions_of projectDir)))
                     projectDir\<rparr>"
    if "readConfigJson w projectDir = Inr ps" for ps
    using that
    by (cases "truthy_field exclude_opt options")
       (simp_all add: getAssetFilesAsync_Inr filtered_def excluded_def toExclude_def inc)
  have emp: "getAssetFilesAsync w projectDir options =
            Inr \<lparr>allFiles =
                   filterImages (allFiles_of w (globOptions_of projectDir) (patterns_of ps)) projectDir,
                 selectedFiles = []\<rparr>"
    if "readConfigJson w projectDir = Inr ps \<and> glob_sync w pattern (globOptions_of projectDir) = []" for ps
    using that sel [of ps]
    by (cases "truthy_field exclude_opt options") (simp_all add: filterImages_Nil)
  from inc sel emp show ?thesis by blast
qed

theorem include_pattern_is_authoritative_witness:
  "include_opt \<lparr>quality = 80, include_opt = Some ''*.png'', exclude_opt = None, save = None\<rparr>
     = Some ''*.png''
   \<and> ''*.png'' \<noteq> []
   \<and> readConfigJson ((example_project ''/proj'')\<lparr>readConfigJson := \<lambda>d. Inr (Some [''b.png''])\<rparr>) ''/proj''
      = Inr (Some [''b.png''])
   \<and> glob_sync ((example_project ''/proj'')\<lparr>readConfigJson := \<lambda>d. Inr (Some [''b.png''])\<rparr>)
        ''*.png'' (globOptions_of ''/proj'')
      = [''a.png'', ''b.png'']
   \<and> getAssetFilesAsync ((example_project ''/proj'')\<lparr>readConfigJson := \<lambda>d. Inr (Some [''b.png''])\<rparr>)
        ''/proj''
        (Some \<lparr>quality = 80, include_opt = Some ''*.png'', exclude_opt = None, save = None\<rparr>)
      = Inr \<lparr>allFiles = [''/proj/b.png''], selectedFiles = [''/proj/a.png'', ''/proj/b.png'']\<rparr>
   \<and> glob_sync (example_project ''/proj'') ''*.gif'' (globOptions_of ''/proj'') = []
   \<and> getAssetFilesAsync (example_project ''/proj'') ''/proj''
        (Some \<lparr>quality = 80, include_opt = Some ''*.gif'', exclude_opt = None, save = None\<rparr>)
      = Inr \<lparr>allFiles = [''/proj/a.png'', ''/proj/b.png'', ''/proj/c.jpg''], selectedFiles = []\<rparr>"
proof -
  let ?opt = "\<lparr>quality = 80, include_opt = Some ''*.png'', exclude_opt = None, save = None\<rparr>"
  let ?gif = "\<lparr>quality = 80, include_opt = Some ''*.gif'', exclude_opt = None, save = None\<rparr>"
  let ?w = "(example_project ''/proj'')\<lparr>readConfigJson := \<lambda>d. Inr (Some [''b.png''])\<rparr>"
  let ?v = "example_project ''/proj''"
  let ?go = "globOptions_of ''/proj''"
  have h1: "include_opt ?opt = Some ''*.png''" and h2: "''*.png'' \<noteq> []"
    by simp_all
  have g1: "include_opt ?gif = Some ''*.gif''" and g2: "''*.gif'' \<noteq> []"
    by simp_all
  have cfg: "readConfigJson ?w ''/proj'' = Inr (Some [''b.png''])"
    by simp
  have cfg0: "readConfigJson ?v ''/proj'' = Inr None"
    by (simp add: example_project_def)
  have png: "glob_sync ?w ''*.png'' ?go = [''a.png'', ''b.png'']"
    by (simp add: example_project_def example_glob_def)
  have gif: "glob_sync ?v ''*.gif'' ?go = []"
    by (simp add: example_project_def example_glob_def)
  have ex: "truthy_field exclude_opt (Some ?opt) = None"
    by (simp add: truthy_field_def)
  have all: "filterImages (allFiles_of ?w ?go (patterns_of (Some [''b.png'']))) ''/proj'' = [''/proj/b.png'']"
    by code_simp
  have sel: "filterImages [''a.png'', ''b.png''] ''/proj'' = [''/proj/a.png'', ''/proj/b.png'']"
    by code_simp
  have all0: "filterImages (allFiles_of ?v ?go (patterns_of None)) ''/proj''
      = [''/proj/a.png'', ''/proj/b.png'', ''/proj/c.jpg'']"
    by code_simp
  note t = include_pattern_is_authoritative [OF refl h1 h2, of ?w ?go "[]" "''/proj''"]
  note u = include_pattern_is_authoritative [OF refl g1 g2, of ?v ?go "[]" "''/proj''"]
  have r: "getAssetFilesAsync ?w ''/proj'' (Some ?opt)
      = Inr \<lparr>allFiles = [''/proj/b.png''], selectedFiles = [''/proj/a.png'', ''/proj/b.png'']\<rparr>"
    using t [THEN conjunct2, THEN conjunct1, THEN spec, THEN mp, OF cfg]
    by (simp only: ex png all sel option.case)
  have cg: "readConfigJson ?v ''/proj'' = Inr None \<and> glob_sync ?v ''*.gif'' ?go = []"
    using cfg0 gif by (intro conjI)
  have e: "getAssetFilesAsync ?v ''/proj'' (Some ?gif)
      = Inr \<lparr>allFiles = [''/proj/a.png'', ''/proj/b.png'', ''/proj/c.jpg''], selectedFiles = []\<rparr>"
    using u [THEN conjunct2, THEN conjunct2, THEN spec, THEN mp, OF cg]
    by (simp only: all0)
  from h1 h2 cfg png r gif e show ?thesis by (intro conjI)
qed

text \<open>
  Claim C6. Every path in \<^verbatim>\<open>allFiles\<close> and in \<^verbatim>\<open>selectedFiles\<close> ends, after lower-casing, in
  \<^verbatim>\<open>.png\<close>, \<^verbatim>\<open>.jpg\<close> or \<^verbatim>\<open>.jpeg\<close>; and a file whose name does not end so (such as
  \<^verbatim>\<open>notes.txt\<close>) is in neither list under the path it would be returned as, whatever the
  options are.
\<close>

theorem only_images_returned:
  assumes "getAssetFilesAsync w projectDir options = Inr r"
  shows "(\<forall>p \<in> set (allFiles r) \<union> set (selectedFiles r).
            suffix ''.png'' (toLowerCase p) \<or> suffix ''.jpg'' (toLowerCase p)
            \<or> suffix ''.jpeg'' (toLowerCase p))
    \<and> (\<forall>file. \<not> (suffix ''.png'' (toLowerCase file) \<or> suffix ''.jpg'' (toLowerCase file)
                  \<or> suffix ''.jpeg'' (toLowerCase file)) \<longrightarrow>
          inDirectory projectDir file \<notin> set (allFiles r) \<union> set (selectedFiles r))"
proof -
  from assms obtain fs gs where r: "allFiles r = filterImages fs projectDir"
      "selectedFiles r = filterImages gs projectDir"
    by (rule getAssetFilesAsync_cases)
  have img: "regex_test (toLowerCase p)" if "p \<in> set (allFiles r) \<union> set (selectedFiles r)" for p
    using that r by (auto dest: filterImages_regex)
  show ?thesis
  proof (intro conjI ballI allI impI)
    fix p
    assume "p \<in> set (allFiles r) \<union> set (selectedFiles r)"
    then have "regex_test (toLowerCase p)" by (rule img)
    then show "suffix ''.png'' (toLowerCase p) \<or> suffix ''.jpg'' (toLowerCase p)
        \<or> suffix ''.jpeg'' (toLowerCase p)"
      by (simp add: regex_test_def)
  next
    fix f
    assume n: "\<not> (suffix ''.png'' (toLowerCase f) \<or> suffix ''.jpg'' (toLowerCase f)
        \<or> suffix ''.jpeg'' (toLowerCase f))"
    show "inDirectory projectDir f \<notin> set (allFiles r) \<union> set (selectedFiles r)"
    proof
      assume "inDirectory projectDir f \<in> set (allFiles r) \<union> set (selectedFiles r)"
      then have "regex_test (toLowerCase (inDirectory projectDir f))" by (rule img)
      then have "regex_test (toLowerCase f)" by (simp add: regex_test_inDirectory)
      with n show False by (simp add: regex_test_def)
    qed
  qed
qed

theorem only_images_returned_witness:
  "getAssetFilesAsync (example_project ''/proj'') ''/proj''
      (Some \<lparr>quality = 80, include_opt = Some ''notes.*'', exclude_opt = None, save = None\<rparr>)
     = Inr \<lparr>allFiles = [''/proj/a.png'', ''/proj/b.png'', ''/proj/c.jpg''], selectedFiles = []\<rparr>
   \<and> glob_sync (example_project ''/proj'') ''notes.*'' (globOptions_of ''/proj'') = [''notes.txt'']
   \<and> inDirectory ''/proj'' ''notes.txt'' = ''/proj/notes.txt''
   \<and> ''/proj/notes.txt'' \<notin> set [''/proj/a.png'', ''/proj/b.png'', ''/proj/c.jpg''] \<union> set []
   \<and> suffix ''.jpg'' (toLowerCase ''/proj/c.jpg'')"
proof -
  let ?o = "Some \<lparr>quality = 80, include_opt = Some ''notes.*'', exclude_opt = None, save = None\<rparr>"
  let ?r = "\<lparr>allFiles = [''/proj/a.png'', ''/proj/b.png'', ''/proj/c.jpg''], selectedFiles = []\<rparr>"
  have h: "getAssetFilesAsync (example_project ''/proj'') ''/proj'' ?o = Inr ?r"
    by code_simp
  have g: "glob_sync (example_project ''/proj'') ''notes.*'' (globOptions_of ''/proj'') = [''notes.txt'']"
    by code_simp
  have i: "inDirectory ''/proj'' ''notes.txt'' = ''/proj/notes.txt''"
    by code_simp
  have s: "suffix ''.jpg'' (toLowerCase ''/proj/c.jpg'')"
    by code_simp
  from only_images_returned [OF h] show ?thesis using h g i s by simp
qed

lemma set_filterImages_image:
  assumes "{f \<in> set fs. regex_test (toLowerCase f)} = S"
  shows "set (filterImages fs d) = inDirectory d ` S"
  using assms by (auto simp: filterImages_eq)

lemma regex_test_a_png: "regex_test (toLowerCase ''a.png'')"
  by code_simp

lemma regex_test_b_png: "regex_test (toLowerCase ''b.png'')"
  by code_simp

text \<open>
  Claim C1. In a project whose bundle patterns match exactly the image files \<^verbatim>\<open>a.png\<close>,
  \<^verbatim>\<open>b.png\<close> and \<^verbatim>\<open>c.jpg\<close>, where \<^verbatim>\<open>*.png\<close> expands to \<^verbatim>\<open>a.png\<close> and \<^verbatim>\<open>b.png\<close> and \<^verbatim>\<open>b.png\<close> to
  itself: with \<^verbatim>\<open>include = "*.png"\<close> the selected files are \<^verbatim>\<open>a.png\<close> and \<^verbatim>\<open>b.png\<close>; with
  \<^verbatim>\<open>exclude = "b.png"\<close> added, the selected file is \<^verbatim>\<open>a.png\<close>; and \<^verbatim>\<open>allFiles\<close> is all three in
  both calls. Each file is returned under its path in the project directory.
\<close>

theorem include_exclude_example:
  assumes cfg: "readConfigJson w projectDir = Inr ps"
    and imgs: "{f \<in> set (allFiles_of w (globOptions_of projectDir) (patterns_of ps)).
                   regex_test (toLowerCase f)} = {''a.png'', ''b.png'', ''c.jpg''}"
    and png: "set (glob_sync w ''*.png'' (globOptions_of projectDir)) = {''a.png'', ''b.png''}"
    and b: "set (glob_sync w ''b.png'' (globOptions_of projectDir)) = {''b.png''}"
    and o1: "include_opt o1 = Some ''*.png''" "exclude_opt o1 = None"
    and o2: "include_opt o2 = Some ''*.png''" "exclude_opt o2 = Some ''b.png''"
  shows "\<exists>r1 r2.
      getAssetFilesAsync w projectDir (Some o1) = Inr r1
    \<and> getAssetFilesAsync w projectDir (Some o2) = Inr r2
    \<and> set (selectedFiles r1) = {inDirectory projectDir ''a.png'', inDirectory projectDir ''b.png''}
    \<and> set (selectedFiles r2) = {inDirectory projectDir ''a.png''}
    \<and> set (allFiles r1) = {inDirectory projectDir ''a.png'', inDirectory projectDir ''b.png'',
                              inDirectory projectDir ''c.jpg''}
    \<and> set (allFiles r2) = {inDirectory projectDir ''a.png'', inDirectory projectDir ''b.png'',
                              inDirectory projectDir ''c.jpg''}"
proof -
  let ?go = "globOptions_of projectDir"
  let ?all = "allFiles_of w ?go (patterns_of ps)"
  have all: "set (filterImages ?all projectDir)
      = {inDirectory projectDir ''a.png'', inDirectory projectDir ''b.png'',
         inDirectory projectDir ''c.jpg''}"
    using set_filterImages_image [OF imgs, of projectDir] by simp
  have f1: "filtered w ?go (Some o1) ?all = glob_sync w ''*.png'' ?go"
    using o1 by (simp add: filtered_def included_def truthy_field_def)
  have "{f \<in> set (glob_sync w ''*.png'' ?go). regex_test (toLowerCase f)} = {''a.png'', ''b.png''}"
    using png regex_test_a_png regex_test_b_png by auto
  then have s1: "set (filterImages (filtered w ?go (Some o1) ?all) projectDir)
      = {inDirectory projectDir ''a.png'', inDirectory projectDir ''b.png''}"
    unfolding f1 using set_filterImages_image [of "glob_sync w ''*.png'' ?go"] by simp
  have f2: "filtered w ?go (Some o2) ?all
      = filter (\<lambda>f. f \<notin> set (glob_sync w ''b.png'' ?go)) (glob_sync w ''*.png'' ?go)"
    using o2 by (simp add: filtered_def excluded_def toExclude_def included_def truthy_field_def)
  have "{f \<in> set (filtered w ?go (Some o2) ?all). regex_test (toLowerCase f)} = {''a.png''}"
    unfolding f2 using png b regex_test_a_png by auto
  then have s2: "set (filterImages (filtered w ?go (Some o2) ?all) projectDir)
      = {inDirectory projectDir ''a.png''}"
    using set_filterImages_image [of "filtered w ?go (Some o2) ?all"] by simp
  show ?thesis
    using all s1 s2 by (simp add: getAssetFilesAsync_Inr [OF cfg])
qed

theorem include_exclude_example_witness:
  "readConfigJson (example_project ''/proj'') ''/proj'' = Inr None
   \<and> allFiles_of (example_project ''/proj'') (globOptions_of ''/proj'') (patterns_of None)
       = [''a.png'', ''b.png'', ''c.jpg'', ''notes.txt'']
   \<and> glob_sync (example_project ''/proj'') ''*.png'' (globOptions_of ''/proj'') = [''a.png'', ''b.png'']
   \<and> glob_sync (example_project ''/proj'') ''b.png'' (globOptions_of ''/proj'') = [''b.png'']
   \<and> getAssetFilesAsync (example_project ''/proj'') ''/proj''
        (Some \<lparr>quality = 80, include_opt = Some ''*.png'', exclude_opt = None, save = None\<rparr>)
      = Inr \<lparr>allFiles = [''/proj/a.png'', ''/proj/b.png'', ''/proj/c.jpg''],
             selectedFiles = [''/proj/a.png'', ''/proj/b.png'']\<rparr>
   \<and> getAssetFilesAsync (example_project ''/proj'') ''/proj''
        (Some \<lparr>quality = 80, include_opt = Some ''*.png'', exclude_opt = Some ''b.png'', save = None\<rparr>)
      = Inr \<lparr>allFiles = [''/proj/a.png'', ''/proj/b.png'', ''/proj/c.jpg''],
             selectedFiles = [''/proj/a.png'']\<rparr>"
proof -
  let ?w = "example_project ''/proj''"
  let ?go = "globOptions_of ''/proj''"
  let ?o1 = "\<lparr>quality = 80, include_opt = Some ''*.png'', exclude_opt = None, save = None\<rparr>"
  let ?o2 = "\<lparr>quality = 80, include_opt = Some ''*.png'', exclude_opt = Some ''b.png'', save = None\<rparr>"
  have cfg: "readConfigJson ?w ''/proj'' = Inr None"
    by (simp add: example_project_def)
  have all: "allFiles_of ?w ?go (patterns_of None) = [''a.png'', ''b.png'', ''c.jpg'', ''notes.txt'']"
    by code_simp
  have imgs: "{f \<in> set (allFiles_of ?w ?go (patterns_of None)). regex_test (toLowerCase f)}
      = {''a.png'', ''b.png'', ''c.jpg''}"
    unfolding all by code_simp
  have png: "glob_sync ?w ''*.png'' ?go = [''a.png'', ''b.png'']"
    by code_simp
  have b: "glob_sync ?w ''b.png'' ?go = [''b.png'']"
    by code_simp
  have png': "set (glob_sync ?w ''*.png'' ?go) = {''a.png'', ''b.png''}"
    and b': "set (glob_sync ?w ''b.png'' ?go) = {''b.png''}"
    by (simp_all add: png b)
  have r1: "getAssetFilesAsync ?w ''/proj'' (Some ?o1)
      = Inr \<lparr>allFiles = [''/proj/a.png'', ''/proj/b.png'', ''/proj/c.jpg''],
             selectedFiles = [''/proj/a.png'', ''/proj/b.png'']\<rparr>"
    by code_simp
  have r2: "getAssetFilesAsync ?w ''/proj'' (Some ?o2)
      = Inr \<lparr>allFiles = [''/proj/a.png'', ''/proj/b.png'', ''/proj/c.jpg''],
             selectedFiles = [''/proj/a.png'']\<rparr>"
    by code_simp
  from include_exclude_example [OF cfg imgs png' b', of ?o1 ?o2]
  show ?thesis using cfg all png b r1 r2 by simp
qed

text \<open>
  Claim C5. Every returned path is to be the project directory joined with the relative
  path, the doubled separator of the join collapsed, so that no returned path contains
  \<^verbatim>\<open>//\<close>. The code does not achieve this: \<^verbatim>\<open>replace\<close> with a string pattern rewrites the
  first occurrence only. For the project directory \<^verbatim>\<open>/srv//proj/\<close> the joined string of
  \<^verbatim>\<open>a.png\<close> is \<^verbatim>\<open>/srv//proj//a.png\<close>; the first \<^verbatim>\<open>//\<close> is the one inside the directory, and
  the one that the join produced stays in the returned path.
\<close>

theorem returned_paths_not_normalized:
  "getAssetFilesAsync (example_project ''/srv//proj/'') ''/srv//proj/'' None
     = Inr \<lparr>allFiles = [''/srv/proj//a.png'', ''/srv/proj//b.png'', ''/srv/proj//c.jpg''],
            selectedFiles = [''/srv/proj//a.png'', ''/srv/proj//b.png'', ''/srv/proj//c.jpg'']\<rparr>
   \<and> sublist ''//'' ''/srv/proj//a.png''
   \<and> ''/srv//proj/'' @ ''/'' @ ''a.png'' = ''/srv//proj//a.png''"
  by code_simp

subsection \<open>The record of optimized assets\<close>

lemma falsy_iff: "falsy v \<longleftrightarrow> v = None \<or> v = Some False"
  by (cases v) (auto simp: falsy_def)

lemma unoptimized_loop_readable:
  assumes "\<forall>f \<in> set fs. \<exists>h. calculateHash w f = Inr h"
  shows "unoptimized_loop w assetInfo fs
     = Inr (\<exists>f \<in> set fs. \<exists>h. calculateHash w f = Inr h \<and> falsy (assetInfo h))"
  using assms
proof (induction fs)
  case Nil
  show ?case by simp
next
  case (Cons f fs)
  from Cons.prems obtain h where h: "calculateHash w f = Inr h" by auto
  from Cons.prems have "\<forall>f \<in> set fs. \<exists>h. calculateHash w f = Inr h" by simp
  then have ih: "unoptimized_loop w assetInfo fs
     = Inr (\<exists>f \<in> set fs. \<exists>h. calculateHash w f = Inr h \<and> falsy (assetInfo h))"
    by (rule Cons.IH)
  show ?case
  proof (cases "falsy (assetInfo h)")
    case True
    with h show ?thesis by auto
  next
    case False
    with h ih show ?thesis by auto
  qed
qed

lemma unoptimized_loop_early_exit:
  assumes "\<forall>f \<in> set pre. \<exists>h. calculateHash w f = Inr h \<and> \<not> falsy (assetInfo h)"
    and "calculateHash w f = Inr h" and "falsy (assetInfo h)"
  shows "unoptimized_loop w assetInfo (pre @ f # post) = Inr True"
  using assms by (induction pre) auto

lemma hasUnoptimizedAssetsAsync_absent:
  "\<not> existsSync w (path_join [projectDir, ''.expo-shared/assets.json'']) \<Longrightarrow>
   hasUnoptimizedAssetsAsync w projectDir options = (w, Inr True)"
  by (simp add: hasUnoptimizedAssetsAsync_def)

lemma hasUnoptimizedAssetsAsync_loop:
  assumes "existsSync w (path_join [projectDir, ''.expo-shared/assets.json''])"
    and "getAssetFilesAsync w projectDir options = Inr r"
    and "readAssetJsonAsync w projectDir = (w', Inr (assetJson, assetInfo))"
  shows "hasUnoptimizedAssetsAsync w projectDir options
     = (w', unoptimized_loop w' assetInfo (selectedFiles r))"
  using assms by (simp add: hasUnoptimizedAssetsAsync_def)

lemma mkdirSync_files: "mkdirSync w p = Inr w1 \<Longrightarrow> files w1 = files w \<and> json_parse w1 = json_parse w"
  by (auto simp: mkdirSync_def split: if_splits)

lemma mkdirSync_error: "mkdirSync w p = Inl e \<Longrightarrow> e = FileSystemError"
  by (auto simp: mkdirSync_def split: if_splits)

text \<open>
  Claim C7. When the document \<^verbatim>\<open>.expo-shared/assets.json\<close> exists and its contents cannot be
  parsed, \<^verbatim>\<open>readAssetJsonAsync\<close> fails: it returns an error, not a record (so not an empty
  one either), and it leaves every file, the corrupt document among them, as it was.
\<close>

theorem corrupt_manifest_is_fatal:
  assumes "files w (path_join [path_join [projectDir, ''.expo-shared''], ''assets.json'']) = Some contents"
    and "json_parse w contents = None"
  shows "snd (readAssetJsonAsync w projectDir) = Inl FileSystemError
    \<and> files (fst (readAssetJsonAsync w projectDir)) = files w"
proof -
  let ?dirPath = "path_join [projectDir, ''.expo-shared'']"
  let ?assetJson = "path_join [?dirPath, ''assets.json'']"
  let ?step = "if \<not> existsSync w ?dirPath then mkdirSync w ?dirPath else Inr w"
  show ?thesis
  proof (cases ?step)
    case (Inl e)
    then have "e = FileSystemError"
      by (auto dest: mkdirSync_error split: if_splits)
    with Inl show ?thesis
      by (simp add: readAssetJsonAsync_def Let_def)
  next
    case (Inr w1)
    then have same: "files w1 = files w \<and> json_parse w1 = json_parse w"
      by (auto dest: mkdirSync_files split: if_splits)
    with assms(1) have ex: "existsSync w1 ?assetJson"
      by (auto simp: existsSync_def)
    have "JsonFile_readAsync w1 ?assetJson = Inl FileSystemError"
      using assms same by (simp add: JsonFile_readAsync_def)
    with Inr ex same show ?thesis
      by (simp add: readAssetJsonAsync_def Let_def)
  qed
qed

theorem corrupt_manifest_is_fatal_witness:
  "files (example_project_with_manifest ''/proj'' ''{sha256-A: tr'')
       (path_join [path_join [''/proj'', ''.expo-shared''], ''assets.json''])
     = Some ''{sha256-A: tr''
   \<and> json_parse (example_project_with_manifest ''/proj'' ''{sha256-A: tr'') ''{sha256-A: tr'' = None
   \<and> snd (readAssetJsonAsync (example_project_with_manifest ''/proj'' ''{sha256-A: tr'') ''/proj'')
     = Inl FileSystemError
   \<and> files (fst (readAssetJsonAsync (example_project_with_manifest ''/proj'' ''{sha256-A: tr'') ''/proj''))
       ''/proj/.expo-shared/assets.json''
     = Some ''{sha256-A: tr''"
proof -
  let ?w = "example_project_with_manifest ''/proj'' ''{sha256-A: tr''"
  have p: "path_join [path_join [''/proj'', ''.expo-shared''], ''assets.json'']
      = ''/proj/.expo-shared/assets.json''"
    by code_simp
  have f: "files ?w ''/proj/.expo-shared/assets.json'' = Some ''{sha256-A: tr''"
    by (simp add: example_project_with_manifest_def)
  have j: "json_parse ?w ''{sha256-A: tr'' = None"
    by (simp add: example_project_with_manifest_def example_project_def example_json_parse_def)
  from corrupt_manifest_is_fatal [of ?w "''/proj''" "''{sha256-A: tr''"]
  show ?thesis using p f j by simp
qed

lemma unoptimized_loop_reaches:
  assumes "\<forall>g \<in> set pre. \<exists>k. calculateHash w g = Inr k"
    and "calculateHash w f = Inr h" and "falsy (assetInfo h)"
  shows "unoptimized_loop w assetInfo (pre @ f # post) = Inr True"
  using assms
proof (induction pre)
  case Nil
  then show ?case by simp
next
  case (Cons g pre)
  from Cons.prems(1) obtain k where k: "calculateHash w g = Inr k" by auto
  from Cons.prems have "unoptimized_loop w assetInfo (pre @ f # post) = Inr True"
    by (intro Cons.IH) simp_all
  with k show ?case by simp
qed

text \<open>
  Claim C10 says that the result is true whenever the document exists and some selected
  file's digest is mapped to \<^verbatim>\<open>false\<close>. In this project the selected files are \<^verbatim>\<open>a.png\<close> and
  \<^verbatim>\<open>b.png\<close>, the digest of \<^verbatim>\<open>b.png\<close> is mapped to \<^verbatim>\<open>false\<close>, and \<^verbatim>\<open>a.png\<close> cannot be read:
  \<^verbatim>\<open>calculateHash\<close> throws at \<^verbatim>\<open>a.png\<close>, before the loop reaches \<^verbatim>\<open>b.png\<close>.
\<close>

theorem unreadable_before_false_entry:
  "existsSync (example_project_missing ''/proj'' ''{sha256-A: true, sha256-B: false}'' ''a.png'')
      (path_join [''/proj'', ''.expo-shared/assets.json''])
   \<and> getAssetFilesAsync
        (example_project_missing ''/proj'' ''{sha256-A: true, sha256-B: false}'' ''a.png'') ''/proj''
        (Some \<lparr>quality = 80, include_opt = Some ''*.png'', exclude_opt = None, save = None\<rparr>)
      = Inr \<lparr>allFiles = [''/proj/a.png'', ''/proj/b.png'', ''/proj/c.jpg''],
             selectedFiles = [''/proj/a.png'', ''/proj/b.png'']\<rparr>
   \<and> readAssetJsonAsync
        (example_project_missing ''/proj'' ''{sha256-A: true, sha256-B: false}'' ''a.png'') ''/proj''
      = (example_project_missing ''/proj'' ''{sha256-A: true, sha256-B: false}'' ''a.png'',
         Inr (''/proj/.expo-shared/assets.json'', [''sha256-A'' \<mapsto> True, ''sha256-B'' \<mapsto> False]))
   \<and> calculateHash
        (example_project_missing ''/proj'' ''{sha256-A: true, sha256-B: false}'' ''a.png'')
        ''/proj/a.png'' = Inl IOError
   \<and> calculateHash
        (example_project_missing ''/proj'' ''{sha256-A: true, sha256-B: false}'' ''a.png'')
        ''/proj/b.png'' = Inr ''sha256-B''
   \<and> [''sha256-A'' \<mapsto> True, ''sha256-B'' \<mapsto> False] ''sha256-B'' = Some False
   \<and> snd (hasUnoptimizedAssetsAsync
          (example_project_missing ''/proj'' ''{sha256-A: true, sha256-B: false}'' ''a.png'') ''/proj''
          (Some \<lparr>quality = 80, include_opt = Some ''*.png'', exclude_opt = None, save = None\<rparr>))
      = Inl IOError"
proof -
  let ?w = "example_project_missing ''/proj'' ''{sha256-A: true, sha256-B: false}'' ''a.png''"
  let ?o = "Some \<lparr>quality = 80, include_opt = Some ''*.png'', exclude_opt = None, save = None\<rparr>"
  let ?r = "\<lparr>allFiles = [''/proj/a.png'', ''/proj/b.png'', ''/proj/c.jpg''],
             selectedFiles = [''/proj/a.png'', ''/proj/b.png'']\<rparr>"
  let ?m = "[''sha256-A'' \<mapsto> True, ''sha256-B'' \<mapsto> False]"
  have p: "path_join [''/proj'', ''.expo-shared''] = ''/proj/.expo-shared''"
    "path_join [''/proj/.expo-shared'', ''assets.json''] = ''/proj/.expo-shared/assets.json''"
    "path_join [''/proj'', ''.expo-shared/assets.json''] = ''/proj/.expo-shared/assets.json''"
    by code_simp+
  have e: "existsSync ?w (path_join [''/proj'', ''.expo-shared/assets.json''])"
    unfolding p
    by (simp add: existsSync_def example_project_missing_def example_project_with_manifest_def)
  have g: "getAssetFilesAsync ?w ''/proj'' ?o = Inr ?r"
    by code_simp
  have l: "readAssetJsonAsync ?w ''/proj'' = (?w, Inr (''/proj/.expo-shared/assets.json'', ?m))"
    by (simp add: readAssetJsonAsync_def p Let_def existsSync_def example_project_missing_def
        example_project_with_manifest_def JsonFile_readAsync_def example_project_def
        example_json_parse_def)
  have a: "calculateHash ?w ''/proj/a.png'' = Inl IOError"
    and b: "calculateHash ?w ''/proj/b.png'' = Inr ''sha256-B''"
    by code_simp+
  have v: "?m ''sha256-B'' = Some False"
    by simp
  have h: "snd (hasUnoptimizedAssetsAsync ?w ''/proj'' ?o) = Inl IOError"
    by code_simp
  from e g l a b v h show ?thesis by (intro conjI)
qed

text \<open>
  Claim C10, amended. When the document exists, the selection succeeds, the record
  loads, the files selected before it can be read, and the record maps the digest of a
  selected file to \<^verbatim>\<open>false\<close>, \<^verbatim>\<open>hasUnoptimizedAssetsAsync\<close> returns true, whatever follows
  that file in the list: the test \<^verbatim>\<open>!assetInfo[hash]\<close> is on the value of the entry, not on
  the presence of the key.
\<close>

theorem false_entry_is_unoptimized:
  assumes "existsSync w (path_join [projectDir, ''.expo-shared/assets.json''])"
    and "getAssetFilesAsync w projectDir options = Inr r"
    and "readAssetJsonAsync w projectDir = (w', Inr (assetJson, assetInfo))"
    and "selectedFiles r = pre @ f # post"
    and "\<forall>g \<in> set pre. \<exists>k. calculateHash w' g = Inr k"
    and "calculateHash w' f = Inr h"
    and "assetInfo h = Some False"
  shows "snd (hasUnoptimizedAssetsAsync w projectDir options) = Inr True"
proof -
  have "falsy (assetInfo h)"
    using assms(7) by (simp add: falsy_def)
  with assms(5,6) have "unoptimized_loop w' assetInfo (pre @ f # post) = Inr True"
    by (rule unoptimized_loop_reaches)
  then show ?thesis
    using hasUnoptimizedAssetsAsync_loop [OF assms(1,2,3)] assms(4) by simp
qed

theorem false_entry_is_unoptimized_witness:
  "existsSync (example_project_unreadable ''/proj'' ''{sha256-A: true, sha256-B: false}'')
      (path_join [''/proj'', ''.expo-shared/assets.json''])
   \<and> getAssetFilesAsync (example_project_unreadable ''/proj'' ''{sha256-A: true, sha256-B: false}'')
        ''/proj'' None
      = Inr \<lparr>allFiles = [''/proj/a.png'', ''/proj/b.png'', ''/proj/c.jpg''],
             selectedFiles = [''/proj/a.png'', ''/proj/b.png'', ''/proj/c.jpg'']\<rparr>
   \<and> readAssetJsonAsync (example_project_unreadable ''/proj'' ''{sha256-A: true, sha256-B: false}'')
        ''/proj''
      = (example_project_unreadable ''/proj'' ''{sha256-A: true, sha256-B: false}'',
         Inr (''/proj/.expo-shared/assets.json'', [''sha256-A'' \<mapsto> True, ''sha256-B'' \<mapsto> False]))
   \<and> calculateHash (example_project_unreadable ''/proj'' ''{sha256-A: true, sha256-B: false}'')
        ''/proj/a.png'' = Inr ''sha256-A''
   \<and> calculateHash (example_project_unreadable ''/proj'' ''{sha256-A: true, sha256-B: false}'')
        ''/proj/b.png'' = Inr ''sha256-B''
   \<and> calculateHash (example_project_unreadable ''/proj'' ''{sha256-A: true, sha256-B: false}'')
        ''/proj/c.jpg'' = Inl IOError
   \<and> [''sha256-A'' \<mapsto> True, ''sha256-B'' \<mapsto> False] ''sha256-B'' = Some False
   \<and> snd (hasUnoptimizedAssetsAsync
          (example_project_unreadable ''/proj'' ''{sha256-A: true, sha256-B: false}'') ''/proj'' None)
      = Inr True"
proof -
  let ?w = "example_project_unreadable ''/proj'' ''{sha256-A: true, sha256-B: false}''"
  let ?r = "\<lparr>allFiles = [''/proj/a.png'', ''/proj/b.png'', ''/proj/c.jpg''],
             selectedFiles = [''/proj/a.png'', ''/proj/b.png'', ''/proj/c.jpg'']\<rparr>"
  let ?m = "[''sha256-A'' \<mapsto> True, ''sha256-B'' \<mapsto> False]"
  have p: "path_join [''/proj'', ''.expo-shared''] = ''/proj/.expo-shared''"
    "path_join [''/proj/.expo-shared'', ''assets.json''] = ''/proj/.expo-shared/assets.json''"
    "path_join [''/proj'', ''.expo-shared/assets.json''] = ''/proj/.expo-shared/assets.json''"
    by code_simp+
  have e: "existsSync ?w (path_join [''/proj'', ''.expo-shared/assets.json''])"
    unfolding p
    by (simp add: existsSync_def example_project_unreadable_def example_project_with_manifest_def)
  have g: "getAssetFilesAsync ?w ''/proj'' None = Inr ?r"
    by code_simp
  have l: "readAssetJsonAsync ?w ''/proj'' = (?w, Inr (''/proj/.expo-shared/assets.json'', ?m))"
    by (simp add: readAssetJsonAsync_def p Let_def existsSync_def example_project_unreadable_def
        example_project_with_manifest_def JsonFile_readAsync_def example_project_def
        example_json_parse_def)
  have a: "calculateHash ?w ''/proj/a.png'' = Inr ''sha256-A''"
    and b: "calculateHash ?w ''/proj/b.png'' = Inr ''sha256-B''"
    and c: "calculateHash ?w ''/proj/c.jpg'' = Inl IOError"
    by code_simp+
  have s: "selectedFiles ?r = [''/proj/a.png''] @ ''/proj/b.png'' # [''/proj/c.jpg'']"
    by simp
  have all: "\<forall>g \<in> set [''/proj/a.png'']. \<exists>k. calculateHash ?w g = Inr k"
    using a by simp
  have v: "?m ''sha256-B'' = Some False"
    by simp
  from false_entry_is_unoptimized [OF e g l s all b v]
  show ?thesis using e g l a b c v by (intro conjI)
qed

text \<open>
  Claim C2 says that, when the document exists, the result is true if and only if some
  selected file has a digest absent from the record. In this project the selected files
  are \<^verbatim>\<open>a.png\<close> and \<^verbatim>\<open>b.png\<close>, both digests are keys of the record, and the result is true,
  because the entry of the second is \<^verbatim>\<open>false\<close>.
\<close>

theorem digest_present_yet_unoptimized:
  "existsSync (example_project_with_manifest ''/proj'' ''{sha256-A: true, sha256-B: false}'')
      (path_join [''/proj'', ''.expo-shared/assets.json''])
   \<and> getAssetFilesAsync (example_project_with_manifest ''/proj'' ''{sha256-A: true, sha256-B: false}'')
        ''/proj'' (Some \<lparr>quality = 80, include_opt = Some ''*.png'', exclude_opt = None, save = None\<rparr>)
      = Inr \<lparr>allFiles = [''/proj/a.png'', ''/proj/b.png'', ''/proj/c.jpg''],
             selectedFiles = [''/proj/a.png'', ''/proj/b.png'']\<rparr>
   \<and> readAssetJsonAsync (example_project_with_manifest ''/proj'' ''{sha256-A: true, sha256-B: false}'')
        ''/proj''
      = (example_project_with_manifest ''/proj'' ''{sha256-A: true, sha256-B: false}'',
         Inr (''/proj/.expo-shared/assets.json'', [''sha256-A'' \<mapsto> True, ''sha256-B'' \<mapsto> False]))
   \<and> calculateHash (example_project_with_manifest ''/proj'' ''{sha256-A: true, sha256-B: false}'')
        ''/proj/a.png'' = Inr ''sha256-A''
   \<and> calculateHash (example_project_with_manifest ''/proj'' ''{sha256-A: true, sha256-B: false}'')
        ''/proj/b.png'' = Inr ''sha256-B''
   \<and> ''sha256-A'' \<in> dom [''sha256-A'' \<mapsto> True, ''sha256-B'' \<mapsto> False]
   \<and> ''sha256-B'' \<in> dom [''sha256-A'' \<mapsto> True, ''sha256-B'' \<mapsto> False]
   \<and> snd (hasUnoptimizedAssetsAsync
          (example_project_with_manifest ''/proj'' ''{sha256-A: true, sha256-B: false}'') ''/proj''
          (Some \<lparr>quality = 80, include_opt = Some ''*.png'', exclude_opt = None, save = None\<rparr>))
      = Inr True"
proof -
  let ?w = "example_project_with_manifest ''/proj'' ''{sha256-A: true, sha256-B: false}''"
  let ?o = "Some \<lparr>quality = 80, include_opt = Some ''*.png'', exclude_opt = None, save = None\<rparr>"
  let ?r = "\<lparr>allFiles = [''/proj/a.png'', ''/proj/b.png'', ''/proj/c.jpg''],
             selectedFiles = [''/proj/a.png'', ''/proj/b.png'']\<rparr>"
  let ?m = "[''sha256-A'' \<mapsto> True, ''sha256-B'' \<mapsto> False]"
  have p: "path_join [''/proj'', ''.expo-shared''] = ''/proj/.expo-shared''"
    "path_join [''/proj/.expo-shared'', ''assets.json''] = ''/proj/.expo-shared/assets.json''"
    "path_join [''/proj'', ''.expo-shared/assets.json''] = ''/proj/.expo-shared/assets.json''"
    by code_simp+
  have e: "existsSync ?w (path_join [''/proj'', ''.expo-shared/assets.json''])"
    unfolding p by (simp add: existsSync_def example_project_with_manifest_def)
  have g: "getAssetFilesAsync ?w ''/proj'' ?o = Inr ?r"
    by code_simp
  have l: "readAssetJsonAsync ?w ''/proj'' = (?w, Inr (''/proj/.expo-shared/assets.json'', ?m))"
    by (simp add: readAssetJsonAsync_def p Let_def existsSync_def example_project_with_manifest_def
        JsonFile_readAsync_def example_project_def example_json_parse_def)
  have a: "calculateHash ?w ''/proj/a.png'' = Inr ''sha256-A''"
    and b: "calculateHash ?w ''/proj/b.png'' = Inr ''sha256-B''"
    by code_simp+
  have d: "''sha256-A'' \<in> dom ?m" "''sha256-B'' \<in> dom ?m"
    by simp_all
  have h: "snd (hasUnoptimizedAssetsAsync ?w ''/proj'' ?o) = Inr True"
    by code_simp
  from e g l a b d h show ?thesis by (intro conjI)
qed

text \<open>
  Claim C2, amended. \<^verbatim>\<open>hasUnoptimizedAssetsAsync\<close> returns true whenever the document
  \<^verbatim>\<open>.expo-shared/assets.json\<close> does not exist, whatever is selected. When it exists, the
  selection succeeds and the record loads: if every selected file can be read, the result
  is true if and only if some selected file has a digest that is absent from the record
  or mapped to \<^verbatim>\<open>false\<close> (so it is false when every digest is mapped to \<^verbatim>\<open>true\<close>); and the
  result is true at the first such file, whatever follows it in the list, later files
  not being read.
\<close>

theorem hasUnoptimizedAssets_by_truthiness:
  "(\<not> existsSync w (path_join [projectDir, ''.expo-shared/assets.json'']) \<longrightarrow>
      hasUnoptimizedAssetsAsync w projectDir options = (w, Inr True))
   \<and> (existsSync w (path_join [projectDir, ''.expo-shared/assets.json''])
        \<and> getAssetFilesAsync w projectDir options = Inr r
        \<and> readAssetJsonAsync w projectDir = (w', Inr (assetJson, assetInfo)) \<longrightarrow>
       ((\<forall>f \<in> set (selectedFiles r). \<exists>h. calculateHash w' f = Inr h) \<longrightarrow>
          snd (hasUnoptimizedAssetsAsync w projectDir options)
            = Inr (\<exists>f \<in> set (selectedFiles r). \<exists>h. calculateHash w' f = Inr h
                     \<and> (assetInfo h = None \<or> assetInfo h = Some False)))
       \<and> (\<forall>pre f post h.
             selectedFiles r = pre @ f # post
             \<and> (\<forall>g \<in> set pre. \<exists>k. calculateHash w' g = Inr k \<and> assetInfo k = Some True)
             \<and> calculateHash w' f = Inr h
             \<and> (assetInfo h = None \<or> assetInfo h = Some False) \<longrightarrow>
             snd (hasUnoptimizedAssetsAsync w projectDir options) = Inr True))"
proof (intro conjI impI allI)
  assume "\<not> existsSync w (path_join [projectDir, ''.expo-shared/assets.json''])"
  then show "hasUnoptimizedAssetsAsync w projectDir options = (w, Inr True)"
    by (rule hasUnoptimizedAssetsAsync_absent)
next
  assume a: "existsSync w (path_join [projectDir, ''.expo-shared/assets.json''])
        \<and> getAssetFilesAsync w projectDir options = Inr r
        \<and> readAssetJsonAsync w projectDir = (w', Inr (assetJson, assetInfo))"
    and b: "\<forall>f \<in> set (selectedFiles r). \<exists>h. calculateHash w' f = Inr h"
  from a have "hasUnoptimizedAssetsAsync w projectDir options
      = (w', unoptimized_loop w' assetInfo (selectedFiles r))"
    by (simp add: hasUnoptimizedAssetsAsync_loop)
  with b show "snd (hasUnoptimizedAssetsAsync w projectDir options)
      = Inr (\<exists>f \<in> set (selectedFiles r). \<exists>h. calculateHash w' f = Inr h
               \<and> (assetInfo h = None \<or> assetInfo h = Some False))"
    by (simp add: unoptimized_loop_readable falsy_iff)
next
  fix pre f post h
  assume a: "existsSync w (path_join [projectDir, ''.expo-shared/assets.json''])
        \<and> getAssetFilesAsync w projectDir options = Inr r
        \<and> readAssetJsonAsync w projectDir = (w', Inr (assetJson, assetInfo))"
    and b: "selectedFiles r = pre @ f # post
             \<and> (\<forall>g \<in> set pre. \<exists>k. calculateHash w' g = Inr k \<and> assetInfo k = Some True)
             \<and> calculateHash w' f = Inr h
             \<and> (assetInfo h = None \<or> assetInfo h = Some False)"
  from a have l: "hasUnoptimizedAssetsAsync w projectDir options
      = (w', unoptimized_loop w' assetInfo (selectedFiles r))"
    by (simp add: hasUnoptimizedAssetsAsync_loop)
  have nf: "\<not> falsy (assetInfo k)" if "assetInfo k = Some True" for k
    using that by (simp add: falsy_def)
  from b have "\<forall>g \<in> set pre. \<exists>k. calculateHash w' g = Inr k \<and> assetInfo k = Some True"
    by simp
  then have "\<forall>g \<in> set pre. \<exists>k. calculateHash w' g = Inr k \<and> \<not> falsy (assetInfo k)"
    using nf by blast
  moreover from b have "calculateHash w' f = Inr h" and "falsy (assetInfo h)"
    by (simp_all add: falsy_iff)
  ultimately have "unoptimized_loop w' assetInfo (pre @ f # post) = Inr True"
    by (rule unoptimized_loop_early_exit)
  with l b show "snd (hasUnoptimizedAssetsAsync w projectDir options) = Inr True"
    by simp
qed

theorem hasUnoptimizedAssets_by_truthiness_witness:
  "\<not> existsSync (example_project ''/proj'') (path_join [''/proj'', ''.expo-shared/assets.json''])
   \<and> getAssetFilesAsync (example_project ''/proj'') ''/proj''
        (Some \<lparr>quality = 80, include_opt = Some ''*.gif'', exclude_opt = None, save = None\<rparr>)
      = Inr \<lparr>allFiles = [''/proj/a.png'', ''/proj/b.png'', ''/proj/c.jpg''], selectedFiles = []\<rparr>
   \<and> hasUnoptimizedAssetsAsync (example_project ''/proj'') ''/proj''
        (Some \<lparr>quality = 80, include_opt = Some ''*.gif'', exclude_opt = None, save = None\<rparr>)
      = (example_project ''/proj'', Inr True)
   \<and> existsSync (example_project_unreadable ''/proj'' ''{}'')
        (path_join [''/proj'', ''.expo-shared/assets.json''])
   \<and> getAssetFilesAsync (example_project_unreadable ''/proj'' ''{}'') ''/proj'' None
      = Inr \<lparr>allFiles = [''/proj/a.png'', ''/proj/b.png'', ''/proj/c.jpg''],
             selectedFiles = [''/proj/a.png'', ''/proj/b.png'', ''/proj/c.jpg'']\<rparr>
   \<and> readAssetJsonAsync (example_project_unreadable ''/proj'' ''{}'') ''/proj''
      = (example_project_unreadable ''/proj'' ''{}'', Inr (''/proj/.expo-shared/assets.json'', Map.empty))
   \<and> calculateHash (example_project_unreadable ''/proj'' ''{}'') ''/proj/a.png'' = Inr ''sha256-A''
   \<and> calculateHash (example_project_unreadable ''/proj'' ''{}'') ''/proj/c.jpg'' = Inl IOError
   \<and> snd (hasUnoptimizedAssetsAsync (example_project_unreadable ''/proj'' ''{}'') ''/proj'' None)
      = Inr True
   \<and> snd (hasUnoptimizedAssetsAsync
          (example_project_with_manifest ''/proj'' ''{sha256-A: true, sha256-B: true}'') ''/proj''
          (Some \<lparr>quality = 80, include_opt = Some ''*.png'', exclude_opt = None, save = None\<rparr>))
      = Inr False"
proof -
  let ?v = "example_project ''/proj''"
  let ?q = "Some \<lparr>quality = 80, include_opt = Some ''*.gif'', exclude_opt = None, save = None\<rparr>"
  let ?w = "example_project_unreadable ''/proj'' ''{}''"
  let ?r = "\<lparr>allFiles = [''/proj/a.png'', ''/proj/b.png'', ''/proj/c.jpg''],
             selectedFiles = [''/proj/a.png'', ''/proj/b.png'', ''/proj/c.jpg'']\<rparr>"
  let ?m = "Map.empty :: AssetOptimizationState"
  have p: "path_join [''/proj'', ''.expo-shared''] = ''/proj/.expo-shared''"
    "path_join [''/proj/.expo-shared'', ''assets.json''] = ''/proj/.expo-shared/assets.json''"
    "path_join [''/proj'', ''.expo-shared/assets.json''] = ''/proj/.expo-shared/assets.json''"
    by code_simp+
  have n0: "\<not> existsSync ?v (path_join [''/proj'', ''.expo-shared/assets.json''])"
    unfolding p by (simp add: existsSync_def example_project_def)
  have g0: "getAssetFilesAsync ?v ''/proj'' ?q
      = Inr \<lparr>allFiles = [''/proj/a.png'', ''/proj/b.png'', ''/proj/c.jpg''], selectedFiles = []\<rparr>"
    by code_simp
  have e: "existsSync ?w (path_join [''/proj'', ''.expo-shared/assets.json''])"
    unfolding p
    by (simp add: existsSync_def example_project_unreadable_def example_project_with_manifest_def)
  have g: "getAssetFilesAsync ?w ''/proj'' None = Inr ?r"
    by code_simp
  have l: "readAssetJsonAsync ?w ''/proj'' = (?w, Inr (''/proj/.expo-shared/assets.json'', ?m))"
    by (simp add: readAssetJsonAsync_def p Let_def existsSync_def example_project_unreadable_def
        example_project_with_manifest_def JsonFile_readAsync_def example_project_def
        example_json_parse_def)
  have a: "calculateHash ?w ''/proj/a.png'' = Inr ''sha256-A''"
    and c: "calculateHash ?w ''/proj/c.jpg'' = Inl IOError"
    by code_simp+
  have f: "snd (hasUnoptimizedAssetsAsync
          (example_project_with_manifest ''/proj'' ''{sha256-A: true, sha256-B: true}'') ''/proj''
          (Some \<lparr>quality = 80, include_opt = Some ''*.png'', exclude_opt = None, save = None\<rparr>))
      = Inr False"
    by code_simp
  note t0 = hasUnoptimizedAssets_by_truthiness [of ?v "''/proj''" ?q undefined undefined undefined undefined, THEN conjunct1]
  note t = hasUnoptimizedAssets_by_truthiness
      [of ?w "''/proj''" None ?r ?w "''/proj/.expo-shared/assets.json''" ?m, THEN conjunct2]
  have h0: "hasUnoptimizedAssetsAsync ?v ''/proj'' ?q = (?v, Inr True)"
    using t0 n0 by (rule mp)
  have ctx: "existsSync ?w (path_join [''/proj'', ''.expo-shared/assets.json''])
      \<and> getAssetFilesAsync ?w ''/proj'' None = Inr ?r
      \<and> readAssetJsonAsync ?w ''/proj'' = (?w, Inr (''/proj/.expo-shared/assets.json'', ?m))"
    using e g l by (intro conjI)
  have first: "selectedFiles ?r = [] @ ''/proj/a.png'' # [''/proj/b.png'', ''/proj/c.jpg'']
          \<and> (\<forall>g \<in> set []. \<exists>k. calculateHash ?w g = Inr k \<and> ?m k = Some True)
          \<and> calculateHash ?w ''/proj/a.png'' = Inr ''sha256-A''
          \<and> (?m ''sha256-A'' = None \<or> ?m ''sha256-A'' = Some False)"
    using a by simp
  have h: "snd (hasUnoptimizedAssetsAsync ?w ''/proj'' None) = Inr True"
    by (rule t [THEN mp, OF ctx, THEN conjunct2, THEN spec, THEN spec, THEN spec, THEN spec,
          THEN mp, OF first])
  from n0 g0 h0 e g l a c h f show ?thesis by (intro conjI)
qed

subsection \<open>Paths and the name of the backup file\<close>

lemma upto_after_last: "upto_last c s @ after_last c s = s"
proof -
  have "upto_last c s @ after_last c s
      = rev (takeWhile (\<lambda>x. x \<noteq> c) (rev s) @ dropWhile (\<lambda>x. x \<noteq> c) (rev s))"
    by (simp only: upto_last_def after_last_def rev_append)
  also have "\<dots> = s"
    by (simp only: takeWhile_dropWhile_id rev_rev_ident)
  finally show ?thesis .
qed

lemma after_last_free: "c \<notin> set (after_last c s)"
proof
  assume "c \<in> set (after_last c s)"
  then have "c \<in> set (takeWhile (\<lambda>x. x \<noteq> c) (rev s))" by (simp add: after_last_def)
  then show False by (auto dest: set_takeWhileD)
qed

lemma after_last_snoc:
  assumes "c \<notin> set b"
  shows "after_last c (xs @ c # b) = b" and "upto_last c (xs @ c # b) = xs @ [c]"
proof -
  have r: "rev (xs @ c # b) = rev b @ c # rev xs" by simp
  have all: "\<forall>x \<in> set (rev b). x \<noteq> c" using assms by auto
  have "takeWhile (\<lambda>x. x \<noteq> c) (rev b @ c # rev xs)
      = rev b @ takeWhile (\<lambda>x. x \<noteq> c) (c # rev xs)"
    by (rule takeWhile_append2) (use all in blast)
  then have t: "takeWhile (\<lambda>x. x \<noteq> c) (rev b @ c # rev xs) = rev b"
    by simp
  have "dropWhile (\<lambda>x. x \<noteq> c) (rev b @ c # rev xs)
      = dropWhile (\<lambda>x. x \<noteq> c) (c # rev xs)"
    by (rule dropWhile_append2) (use all in blast)
  then have d: "dropWhile (\<lambda>x. x \<noteq> c) (rev b @ c # rev xs) = c # rev xs"
    by simp
  show "after_last c (xs @ c # b) = b"
    unfolding after_last_def r t by simp
  show "upto_last c (xs @ c # b) = xs @ [c]"
    unfolding upto_last_def r d by simp
qed

lemma after_last_none:
  assumes "c \<notin> set b"
  shows "after_last c b = b" and "upto_last c b = []"
proof -
  have t: "takeWhile (\<lambda>x. x \<noteq> c) (rev b) = rev b"
    using assms by auto
  have d: "dropWhile (\<lambda>x. x \<noteq> c) (rev b) = []"
    using assms by auto
  show "after_last c b = b" unfolding after_last_def t by simp
  show "upto_last c b = []" unfolding upto_last_def d by simp
qed

lemma upto_last_ends: "upto_last c s \<noteq> [] \<Longrightarrow> last (upto_last c s) = c"
proof -
  assume a: "upto_last c s \<noteq> []"
  then have n: "dropWhile (\<lambda>x. x \<noteq> c) (rev s) \<noteq> []" by (simp add: upto_last_def)
  then have "\<not> (hd (dropWhile (\<lambda>x. x \<noteq> c) (rev s)) \<noteq> c)" by (rule hd_dropWhile)
  then have "hd (dropWhile (\<lambda>x. x \<noteq> c) (rev s)) = c" by simp
  with n show ?thesis by (simp add: upto_last_def last_rev)
qed

lemma strip_trailing_id: "s = [] \<or> last s \<noteq> CHR ''/'' \<Longrightarrow> strip_trailing s = s"
  by (cases s rule: rev_cases) (auto simp: strip_trailing_def)

lemma split_ext_some:
  assumes "split_ext q b = (n, e)" and "e \<noteq> []"
  shows "\<exists>tail. b = n @ e \<and> e = CHR ''.'' # tail \<and> CHR ''.'' \<notin> set tail \<and> n \<noteq> []"
proof -
  from assms have dot: "CHR ''.'' \<in> set b"
    by (auto simp: split_ext_def Let_def split: if_splits)
  let ?u = "upto_last CHR ''.'' b" and ?t = "after_last CHR ''.'' b"
  have u: "?u \<noteq> []"
    using dot upto_after_last [of "CHR ''.''" b] after_last_free [of "CHR ''.''" b] by auto
  then have "last ?u = CHR ''.''" by (rule upto_last_ends)
  with append_butlast_last_id [OF u] have ub: "?u = butlast ?u @ ''.''"
    by simp
  from assms dot have n: "n = butlast ?u" and e: "e = CHR ''.'' # ?t" and ne: "butlast ?u \<noteq> []"
    by (auto simp: split_ext_def Let_def split: if_splits)
  have "b = ?u @ ?t" by (simp add: upto_after_last)
  also have "\<dots> = (butlast ?u @ ''.'') @ ?t" using ub by simp
  finally have "b = n @ e" using n e by simp
  moreover have "CHR ''.'' \<notin> set ?t" by (rule after_last_free)
  ultimately have "b = n @ e \<and> e = CHR ''.'' # ?t \<and> CHR ''.'' \<notin> set ?t \<and> n \<noteq> []"
    using n e ne by simp
  then show ?thesis by (rule exI)
qed

lemma split_ext_orig:
  assumes "n \<noteq> []" and "CHR ''.'' \<notin> set tail"
  shows "split_ext q (n @ ''.orig'' @ CHR ''.'' # tail) = (n @ ''.orig'', CHR ''.'' # tail)"
proof -
  let ?b = "n @ ''.orig'' @ CHR ''.'' # tail"
  have b: "?b = (n @ ''.orig'') @ CHR ''.'' # tail" by simp
  have a: "after_last CHR ''.'' ?b = tail" and u: "upto_last CHR ''.'' ?b = (n @ ''.orig'') @ ''.''"
    unfolding b using assms(2) by (rule after_last_snoc)+
  have dot: "CHR ''.'' \<in> set ?b" by simp
  have st: "butlast ((n @ ''.orig'') @ ''.'') = n @ ''.orig''"
    by (simp add: butlast_append)
  have ne: "n @ ''.orig'' \<noteq> []" "n @ ''.orig'' \<noteq> ''.''"
    using assms(1) by (cases n; simp)+
  show ?thesis
    unfolding split_ext_def Let_def a u st using dot ne by simp
qed

lemma split_on_nonempty: "split_on c xs \<noteq> []"
  by (induction xs) (auto split: list.splits)

lemma split_on_single: "c \<notin> set s \<Longrightarrow> split_on c s = [s]"
  by (induction s) auto

lemma split_on_snoc: "c \<notin> set s \<Longrightarrow> split_on c (x @ c # s) = split_on c x @ [s]"
proof (induction x)
  case Nil
  then show ?case by (simp add: split_on_single)
next
  case (Cons a x)
  then show ?case
    using split_on_nonempty [of c x] by (cases "split_on c x") auto
qed

lemma normalizeString_append:
  "normalizeString a res (xs @ ys) = normalizeString a (normalizeString a res xs) ys"
proof (induction xs arbitrary: res)
  case Nil
  show ?case by simp
next
  case (Cons s xs)
  have "\<exists>res'. \<forall>zs. normalizeString a res (s # zs) = normalizeString a res' zs"
    by (simp only: normalizeString.simps split: if_split) blast
  then obtain res' where step: "\<And>zs. normalizeString a res (s # zs) = normalizeString a res' zs"
    by blast
  have "normalizeString a res ((s # xs) @ ys) = normalizeString a res' (xs @ ys)"
    using step [of "xs @ ys"] by simp
  also have "\<dots> = normalizeString a (normalizeString a res' xs) ys"
    by (rule Cons.IH)
  also have "normalizeString a res' xs = normalizeString a res (s # xs)"
    by (rule step [symmetric])
  finally show ?case .
qed

lemma normalizeString_proper:
  "s \<noteq> [] \<Longrightarrow> s \<noteq> ''.'' \<Longrightarrow> s \<noteq> ''..'' \<Longrightarrow> normalizeString a res [s] = res @ [s]"
  by simp

lemma normalizeString_snoc:
  assumes "s \<noteq> []" "s \<noteq> ''.''" "s \<noteq> ''..''"
  shows "normalizeString a res (xs @ [s]) = normalizeString a res xs @ [s]"
  unfolding normalizeString_append using assms by (rule normalizeString_proper)

lemma join_with_snoc: "M \<noteq> [] \<Longrightarrow> join_with sep (M @ [s]) = join_with sep M @ sep @ s"
  by (induction sep M rule: join_with.induct) simp_all

lemma path_normalize_single:
  assumes "s \<noteq> []" "CHR ''/'' \<notin> set s" "s \<noteq> ''.''" "s \<noteq> ''..''"
  shows "path_normalize s = s"
proof -
  have "hd s \<noteq> CHR ''/''" "last s \<noteq> CHR ''/''"
    using assms(1,2) by (auto dest: hd_in_set last_in_set)
  moreover have "split_on CHR ''/'' s = [s]"
    using assms(2) by (rule split_on_single)
  ultimately show ?thesis
    using assms by (simp add: path_normalize_def)
qed

lemma path_normalize_snoc:
  assumes "x \<noteq> []" and "s \<noteq> []" "CHR ''/'' \<notin> set s" "s \<noteq> ''.''" "s \<noteq> ''..''"
  shows "path_normalize (x @ ''/'' @ s)
     = (if hd x = CHR ''/'' then ''/'' else [])
       @ join_with ''/'' (normalizeString (hd x \<noteq> CHR ''/'') [] (split_on CHR ''/'' x) @ [s])"
proof -
  let ?p = "x @ ''/'' @ s"
  let ?M = "normalizeString (hd x \<noteq> CHR ''/'') [] (split_on CHR ''/'' x)"
  have ne: "?p \<noteq> []" using assms(1) by simp
  have h: "hd ?p = hd x" using assms(1) by simp
  have l: "last ?p \<noteq> CHR ''/''"
    using assms(2,3) by (auto dest: last_in_set)
  have "split_on CHR ''/'' ?p = split_on CHR ''/'' x @ [s]"
    using split_on_snoc [OF assms(3), of x] by simp
  then have n: "normalizeString (hd x \<noteq> CHR ''/'') [] (split_on CHR ''/'' ?p) = ?M @ [s]"
    using assms(2,4,5) by (simp add: normalizeString_snoc)
  have j: "join_with ''/'' (?M @ [s]) \<noteq> []"
  proof (cases "?M = []")
    case True
    with assms(2) show ?thesis by simp
  next
    case False
    then show ?thesis by (simp add: join_with_snoc)
  qed
  show ?thesis
    unfolding path_normalize_def Let_def h n using ne l j by simp
qed

lemma path_join_pair:
  assumes "s \<noteq> []" "CHR ''/'' \<notin> set s" "s \<noteq> ''.''" "s \<noteq> ''..''"
  shows "path_join [d, s] = (if d = [] then s else path_normalize (d @ ''/'' @ s))"
  using assms by (simp add: path_join_def path_normalize_single)

lemma path_join_shape:
  assumes "s \<noteq> []" "CHR ''/'' \<notin> set s" "s \<noteq> ''.''" "s \<noteq> ''..''"
  shows "\<exists>X. path_join [d, s] = X @ s \<and> (X = [] \<or> last X = CHR ''/'')"
proof (cases "d = []")
  case True
  then have "path_join [d, s] = [] @ s" using assms by (simp add: path_join_pair)
  then show ?thesis by blast
next
  case False
  let ?r = "if hd d = CHR ''/'' then ''/'' else []"
  let ?M = "normalizeString (hd d \<noteq> CHR ''/'') [] (split_on CHR ''/'' d)"
  have "path_join [d, s] = path_normalize (d @ ''/'' @ s)"
    using False assms by (simp add: path_join_pair)
  also have "\<dots> = ?r @ join_with ''/'' (?M @ [s])"
    using False assms by (rule path_normalize_snoc)
  finally have e: "path_join [d, s] = ?r @ join_with ''/'' (?M @ [s])" .
  show ?thesis
  proof (cases "?M = []")
    case True
    then have "path_join [d, s] = ?r @ s \<and> (?r = [] \<or> last ?r = CHR ''/'')"
      using e by simp
    then show ?thesis by blast
  next
    case False
    then have "path_join [d, s] = (?r @ join_with ''/'' ?M @ ''/'') @ s
        \<and> last (?r @ join_with ''/'' ?M @ ''/'') = CHR ''/''"
      using e by (simp add: join_with_snoc)
    then show ?thesis by blast
  qed
qed

lemma path_parse_last_segment:
  assumes "s \<noteq> []" "CHR ''/'' \<notin> set s" and X: "X = [] \<or> last X = CHR ''/''"
  shows "\<exists>q. base (path_parse (X @ s)) = s
       \<and> name (path_parse (X @ s)) = fst (split_ext q s)
       \<and> ext (path_parse (X @ s)) = snd (split_ext q s)"
proof -
  let ?p = "X @ s"
  let ?abs = "hd ?p = CHR ''/''"
  let ?body = "if ?abs then tl ?p else ?p"
  have ne: "?p \<noteq> []" using assms(1) by simp
  have hs: "hd s \<noteq> CHR ''/''" "last s \<noteq> CHR ''/''"
    using assms(1,2) by (auto dest: hd_in_set last_in_set)
  have "\<exists>Y. ?body = Y @ s \<and> (Y = [] \<or> last Y = CHR ''/'')"
  proof (cases X)
    case Nil
    with hs have "?body = [] @ s" by simp
    then show ?thesis by blast
  next
    case (Cons c Y)
    show ?thesis
    proof (cases "c = CHR ''/''")
      case True
      with Cons X have "?body = Y @ s \<and> (Y = [] \<or> last Y = CHR ''/'')"
        by (auto split: if_splits)
      then show ?thesis by blast
    next
      case False
      with Cons X have "?body = X @ s \<and> (X = [] \<or> last X = CHR ''/'')"
        by auto
      then show ?thesis by blast
    qed
  qed
  then obtain Y where b: "?body = Y @ s" and Y: "Y = [] \<or> last Y = CHR ''/''"
    by blast
  have "last ?body \<noteq> CHR ''/''" using b hs assms(1) by simp
  then have t: "strip_trailing ?body = Y @ s"
    using b by (simp add: strip_trailing_id)
  have a: "after_last CHR ''/'' (Y @ s) = s"
  proof (cases "Y = []")
    case True
    with assms(2) show ?thesis by (simp add: after_last_none)
  next
    case False
    with Y have "butlast Y @ ''/'' = Y"
      using append_butlast_last_id [of Y] by simp
    then obtain Y' where "Y = Y' @ ''/''" by metis
    then have "Y @ s = Y' @ CHR ''/'' # s" by simp
    then show ?thesis
      using after_last_snoc(1) [OF assms(2), of Y'] by simp
  qed
  show ?thesis
    unfolding path_parse_def Let_def t a using ne
    by (auto simp: case_prod_beta)
qed

lemma split_ext_dotdot:
  assumes "split_ext q b = (n, e)" and "e \<noteq> []" and "\<not> q"
  shows "b \<noteq> ''..''"
proof
  assume b: "b = ''..''"
  have "upto_last CHR ''.'' ''..'' = ''..''" "after_last CHR ''.'' ''..'' = []"
    by (simp_all add: upto_last_def after_last_def)
  with assms b show False
    by (simp add: split_ext_def)
qed

lemma path_parse_fields:
  assumes "p \<noteq> []"
  defines "rt \<equiv> if hd p = CHR ''/'' then ''/'' else []"
    and "trimmed \<equiv> strip_trailing (if hd p = CHR ''/'' then tl p else p)"
  defines "front \<equiv> upto_last CHR ''/'' trimmed"
  shows "base (path_parse p) = after_last CHR ''/'' trimmed"
    and "dir (path_parse p) = (if front \<noteq> [] then rt @ butlast front else rt)"
    and "(name (path_parse p), ext (path_parse p))
          = split_ext (hd p = CHR ''/'' \<and> front = []) (after_last CHR ''/'' trimmed)"
  using assms(1) unfolding rt_def trimmed_def front_def path_parse_def Let_def
  by (simp_all add: case_prod_beta)

lemma path_parse_empty: "ext (path_parse []) = []"
  by (simp add: path_parse_def)

lemma orig_segment:
  assumes "CHR ''/'' \<notin> set (n @ e)"
  shows "n @ ''.orig'' @ e \<noteq> []" "CHR ''/'' \<notin> set (n @ ''.orig'' @ e)"
    "n @ ''.orig'' @ e \<noteq> ''.''" "n @ ''.orig'' @ e \<noteq> ''..''"
proof -
  show "n @ ''.orig'' @ e \<noteq> []" by simp
  show "CHR ''/'' \<notin> set (n @ ''.orig'' @ e)" using assms by simp
  have "CHR ''o'' \<in> set (n @ ''.orig'' @ e)" by simp
  then show "n @ ''.orig'' @ e \<noteq> ''.''" "n @ ''.orig'' @ e \<noteq> ''..''"
    by auto
qed

lemma createNewFilename_base:
  assumes "ext (path_parse p) \<noteq> []"
  shows "base (path_parse p) = name (path_parse p) @ ext (path_parse p)"
    and "\<exists>tail. ext (path_parse p) = CHR ''.'' # tail \<and> CHR ''.'' \<notin> set tail"
    and "name (path_parse p) \<noteq> []"
    and "CHR ''/'' \<notin> set (base (path_parse p))"
proof -
  from assms have ne: "p \<noteq> []" by (auto simp: path_parse_empty)
  note f = path_parse_fields [OF ne]
  from split_ext_some [OF f(3) [symmetric] assms] obtain tail where
    t: "after_last CHR ''/'' (strip_trailing (if hd p = CHR ''/'' then tl p else p))
          = name (path_parse p) @ ext (path_parse p)"
      "ext (path_parse p) = CHR ''.'' # tail" "CHR ''.'' \<notin> set tail" "name (path_parse p) \<noteq> []"
    by blast
  show "base (path_parse p) = name (path_parse p) @ ext (path_parse p)"
    using f(1) t(1) by simp
  show "\<exists>tail. ext (path_parse p) = CHR ''.'' # tail \<and> CHR ''.'' \<notin> set tail"
    using t(2,3) by blast
  show "name (path_parse p) \<noteq> []" by (rule t(4))
  show "CHR ''/'' \<notin> set (base (path_parse p))"
    unfolding f(1) by (rule after_last_free)
qed

lemma createNewFilename_parsed:
  assumes "ext (path_parse p) \<noteq> []"
  shows "base (path_parse (createNewFilename p)) = name (path_parse p) @ ''.orig'' @ ext (path_parse p)"
    and "name (path_parse (createNewFilename p)) = name (path_parse p) @ ''.orig''"
    and "ext (path_parse (createNewFilename p)) = ext (path_parse p)"
proof -
  let ?n = "name (path_parse p)" and ?e = "ext (path_parse p)"
  let ?nb = "?n @ ''.orig'' @ ?e"
  note b = createNewFilename_base [OF assms]
  from b(1,4) have sl: "CHR ''/'' \<notin> set (?n @ ?e)" by simp
  note seg = orig_segment [OF sl]
  from path_join_shape [OF seg, of "dir (path_parse p)"] obtain X where
    X: "createNewFilename p = X @ ?nb" "X = [] \<or> last X = CHR ''/''"
    by (auto simp: createNewFilename_def Let_def)
  from path_parse_last_segment [OF seg(1,2) X(2)] obtain q where
    q: "base (path_parse (X @ ?nb)) = ?nb"
       "name (path_parse (X @ ?nb)) = fst (split_ext q ?nb)"
       "ext (path_parse (X @ ?nb)) = snd (split_ext q ?nb)"
    by blast
  from b(2) obtain tail where t: "?e = CHR ''.'' # tail" "CHR ''.'' \<notin> set tail" by blast
  have "split_ext q (?n @ ''.orig'' @ CHR ''.'' # tail) = (?n @ ''.orig'', CHR ''.'' # tail)"
    using b(3) t(2) by (rule split_ext_orig)
  then have s: "split_ext q ?nb = (?n @ ''.orig'', ?e)"
    using t(1) by simp
  show "base (path_parse (createNewFilename p)) = ?nb"
    unfolding X(1) by (rule q(1))
  show "name (path_parse (createNewFilename p)) = ?n @ ''.orig''"
    unfolding X(1) q(2) s by simp
  show "ext (path_parse (createNewFilename p)) = ?e"
    unfolding X(1) q(3) s by simp
qed

lemma normalizeString_root: "normalizeString a [] (split_on CHR ''/'' ''/'') = []"
  by simp

lemma take_before_suffix: "p = xs @ e \<Longrightarrow> take (length p - length e) p = xs"
  by simp

lemma path_join_root:
  assumes "s \<noteq> []" "CHR ''/'' \<notin> set s" "s \<noteq> ''.''" "s \<noteq> ''..''"
  shows "path_join [''/'', s] = ''/'' @ s"
proof -
  have "path_normalize (''/'' @ ''/'' @ s)
      = (if hd ''/'' = CHR ''/'' then ''/'' else [])
        @ join_with ''/'' (normalizeString (hd ''/'' \<noteq> CHR ''/'') [] (split_on CHR ''/'' ''/'') @ [s])"
    using assms by (intro path_normalize_snoc) simp_all
  then have "path_normalize (''/'' @ ''/'' @ s) = ''/'' @ s"
    by (simp only: normalizeString_root) simp
  moreover have "path_join [''/'', s] = path_normalize (''/'' @ ''/'' @ s)"
    using assms by (simp add: path_join_pair)
  ultimately show ?thesis by simp
qed

text \<open>A path that is its own normal form: joining a directory with another last segment.\<close>

lemma path_join_normalized:
  assumes d: "d \<noteq> []"
    and b: "b \<noteq> []" "CHR ''/'' \<notin> set b" "b \<noteq> ''.''" "b \<noteq> ''..''"
    and s: "s \<noteq> []" "CHR ''/'' \<notin> set s" "s \<noteq> ''.''" "s \<noteq> ''..''"
    and norm: "path_normalize (d @ ''/'' @ b) = d @ ''/'' @ b"
  shows "path_join [d, s] = d @ ''/'' @ s"
proof -
  define r where "r = (if hd d = CHR ''/'' then ''/'' else [])"
  define M where "M = normalizeString (hd d \<noteq> CHR ''/'') [] (split_on CHR ''/'' d)"
  have "path_normalize (d @ ''/'' @ b) = r @ join_with ''/'' (M @ [b])"
    unfolding r_def M_def using d b by (rule path_normalize_snoc)
  with norm have nb: "r @ join_with ''/'' (M @ [b]) = d @ ''/'' @ b"
    by simp
  have r: "r = [] \<or> r = ''/''" by (simp add: r_def)
  have M: "M \<noteq> []"
  proof
    assume "M = []"
    with nb have "r @ b = (d @ ''/'') @ b" by simp
    then have "r = d @ ''/''" by (simp only: append_same_eq)
    with r d show False by (cases d) auto
  qed
  then have "r @ join_with ''/'' (M @ [b]) = (r @ join_with ''/'' M) @ (''/'' @ b)"
    by (simp add: join_with_snoc)
  with nb have "(r @ join_with ''/'' M) @ (''/'' @ b) = d @ (''/'' @ b)" by simp
  then have rd: "r @ join_with ''/'' M = d" by (simp only: append_same_eq)
  have "path_join [d, s] = path_normalize (d @ ''/'' @ s)"
    using d s by (simp add: path_join_pair)
  also have "\<dots> = r @ join_with ''/'' (M @ [s])"
    unfolding r_def M_def using d s by (rule path_normalize_snoc)
  also have "\<dots> = (r @ join_with ''/'' M) @ ''/'' @ s"
    using M by (simp add: join_with_snoc)
  also have "\<dots> = d @ ''/'' @ s" by (simp only: rd)
  finally show ?thesis .
qed

lemma createNewFilename_normalized:
  assumes ex: "ext (path_parse p) \<noteq> []" and norm: "path_normalize p = p"
    and nosl: "last p \<noteq> CHR ''/''"
  shows "createNewFilename p
     = take (length p - length (ext (path_parse p))) p @ ''.orig'' @ ext (path_parse p)"
proof -
  define n where "n = name (path_parse p)"
  define e where "e = ext (path_parse p)"
  define b where "b = base (path_parse p)"
  define d where "d = dir (path_parse p)"
  define rt where "rt = (if hd p = CHR ''/'' then ''/'' else [])"
  define body where "body = (if hd p = CHR ''/'' then tl p else p)"
  define front where "front = upto_last CHR ''/'' body"
  define nb where "nb = n @ ''.orig'' @ e"
  from ex have ne: "p \<noteq> []" by (auto simp: path_parse_empty)
  note base = createNewFilename_base [OF ex, folded n_def e_def b_def]
  from base(1,4) have sl: "CHR ''/'' \<notin> set (n @ e)" by simp
  note seg = orig_segment [OF sl, folded nb_def]
  have p: "p = rt @ body"
    unfolding rt_def body_def using ne by (cases p) auto
  have "body = [] \<or> last body \<noteq> CHR ''/''"
    unfolding body_def using nosl ne by (cases p) (auto split: if_splits)
  then have "strip_trailing body = body" by (rule strip_trailing_id)
  then have tr: "strip_trailing (if hd p = CHR ''/'' then tl p else p) = body"
    by (simp only: body_def)
  note f = path_parse_fields [OF ne, unfolded tr, folded front_def rt_def n_def e_def b_def d_def]
  have bd: "body = front @ b"
    unfolding f(1) front_def by (simp only: upto_after_last)
  have whole: "p = (rt @ front @ n) @ e"
    using p bd base(1) by simp
  then have tk: "take (length p - length e) p = rt @ front @ n"
    by (rule take_before_suffix)
  have cnf: "createNewFilename p = path_join [d, nb]"
    by (simp add: createNewFilename_def Let_def d_def nb_def n_def e_def)
  have "createNewFilename p = rt @ front @ nb"
  proof (cases "front = []")
    case True
    then have dr: "d = rt" using f(2) by simp
    show ?thesis
    proof (cases "hd p = CHR ''/''")
      case False
      then have "rt = []" by (simp add: rt_def)
      with dr True cnf seg show ?thesis by (simp add: path_join_pair)
    next
      case True
      then have "rt = ''/''" by (simp add: rt_def)
      with dr \<open>front = []\<close> cnf path_join_root [OF seg] show ?thesis by simp
    qed
  next
    case False
    then have "last front = CHR ''/''"
      unfolding front_def by (rule upto_last_ends)
    with False have fr: "butlast front @ ''/'' = front"
      using append_butlast_last_id [of front] by simp
    have dd: "d = rt @ butlast front" using f(2) False by simp
    have "d @ ''/'' = rt @ front" unfolding dd using fr by simp
    then have pd: "p = d @ ''/'' @ b"
      using p bd by simp
    have dne: "d \<noteq> []"
    proof
      assume "d = []"
      with pd have "hd p = CHR ''/''" by simp
      then have "rt = ''/''" by (simp add: rt_def)
      with dd \<open>d = []\<close> show False by simp
    qed
    have bseg: "b \<noteq> []" "CHR ''/'' \<notin> set b" "b \<noteq> ''.''" "b \<noteq> ''..''"
    proof -
      show "b \<noteq> []" using base(1,3) by simp
      show "CHR ''/'' \<notin> set b" by (rule base(4))
      from base(2) obtain tail where "e = CHR ''.'' # tail" by blast
      with base(1,3) have "length b \<ge> 2" by (cases n) auto
      then show "b \<noteq> ''.''" by auto
      have "after_last CHR ''/'' body \<noteq> ''..''"
        using f(3) [symmetric]
      proof (rule split_ext_dotdot)
        show "e \<noteq> []" using ex by (simp add: e_def)
        show "\<not> (hd p = CHR ''/'' \<and> front = [])" using False by simp
      qed
      then show "b \<noteq> ''..''" using f(1) by simp
    qed
    have "path_normalize (d @ ''/'' @ b) = d @ ''/'' @ b"
      using norm pd by simp
    with dne bseg seg have "path_join [d, nb] = d @ ''/'' @ nb"
      by (rule path_join_normalized)
    also have "\<dots> = rt @ front @ nb"
      using \<open>d @ ''/'' = rt @ front\<close> by simp
    finally show ?thesis using cnf by simp
  qed
  with tk show ?thesis by (simp add: nb_def e_def)
qed

text \<open>
  Claim C9. For every path whose base name has an extension, the base name of
  \<^verbatim>\<open>createNewFilename\<close>'s result is the base name of the path with \<^verbatim>\<open>.orig\<close> inserted before
  the extension; the extension is the final one (it starts at the last dot of the base
  name) and is kept. \<^verbatim>\<open>path.join\<close> returns the directory part in normal form, so for a path
  that is in normal form and has no trailing slash the result is the path itself with
  \<^verbatim>\<open>.orig\<close> inserted before the extension, as in
  \<^verbatim>\<open>createNewFilename("/a/b/photo.png") = "/a/b/photo.orig.png"\<close>.
\<close>

theorem createNewFilename_inserts_orig:
  assumes "ext (path_parse p) \<noteq> []"
  shows "base (path_parse p) = name (path_parse p) @ ext (path_parse p)
    \<and> (\<exists>tail. ext (path_parse p) = CHR ''.'' # tail \<and> CHR ''.'' \<notin> set tail)
    \<and> base (path_parse (createNewFilename p))
        = name (path_parse p) @ ''.orig'' @ ext (path_parse p)
    \<and> ext (path_parse (createNewFilename p)) = ext (path_parse p)
    \<and> (path_normalize p = p \<and> last p \<noteq> CHR ''/'' \<longrightarrow>
         createNewFilename p
           = take (length p - length (ext (path_parse p))) p @ ''.orig'' @ ext (path_parse p))"
proof (intro conjI impI)
  show "base (path_parse p) = name (path_parse p) @ ext (path_parse p)"
    using assms by (rule createNewFilename_base(1))
  show "\<exists>tail. ext (path_parse p) = CHR ''.'' # tail \<and> CHR ''.'' \<notin> set tail"
    using assms by (rule createNewFilename_base(2))
  show "base (path_parse (createNewFilename p))
      = name (path_parse p) @ ''.orig'' @ ext (path_parse p)"
    using assms by (rule createNewFilename_parsed(1))
  show "ext (path_parse (createNewFilename p)) = ext (path_parse p)"
    using assms by (rule createNewFilename_parsed(3))
next
  assume "path_normalize p = p \<and> last p \<noteq> CHR ''/''"
  then have "path_normalize p = p" and "last p \<noteq> CHR ''/''" by simp_all
  with assms show "createNewFilename p
      = take (length p - length (ext (path_parse p))) p @ ''.orig'' @ ext (path_parse p)"
    by (rule createNewFilename_normalized)
qed

theorem createNewFilename_inserts_orig_witness:
  "ext (path_parse ''/a/b/photo.png'') = ''.png''
   \<and> name (path_parse ''/a/b/photo.png'') = ''photo''
   \<and> path_normalize ''/a/b/photo.png'' = ''/a/b/photo.png''
   \<and> createNewFilename ''/a/b/photo.png'' = ''/a/b/photo.orig.png''
   \<and> base (path_parse (createNewFilename ''/a/b/photo.png'')) = ''photo.orig.png''"
proof -
  have e: "ext (path_parse ''/a/b/photo.png'') = ''.png''"
    and n: "name (path_parse ''/a/b/photo.png'') = ''photo''"
    and m: "path_normalize ''/a/b/photo.png'' = ''/a/b/photo.png''"
    by code_simp+
  have h: "ext (path_parse ''/a/b/photo.png'') \<noteq> []"
    unfolding e by simp
  note c = createNewFilename_inserts_orig [OF h]
  have b: "base (path_parse (createNewFilename ''/a/b/photo.png'')) = ''photo.orig.png''"
    using c [THEN conjunct2, THEN conjunct2, THEN conjunct1] e n by simp
  have r: "createNewFilename ''/a/b/photo.png'' = ''/a/b/photo.orig.png''"
    using c [THEN conjunct2, THEN conjunct2, THEN conjunct2, THEN conjunct2] e m by simp
  from e n m r b show ?thesis by (intro conjI)
qed

end
